theory Spec2Isabelle
  imports Main "HOL-Library.Word"
begin

unbundle bit_operations_syntax

section \<open>Python values shared by both modules\<close>

text \<open>
  Exceptions are values. \<open>Raised n\<close> stands for any exception class derived from
  \<open>Exception\<close> that user code raises, \<open>Interrupt n\<close> for one derived from
  \<open>BaseException\<close> only (KeyboardInterrupt, SystemExit). \<open>StopTest i\<close> is the
  control-flow signal of the byte source with identity \<open>i\<close>.
\<close>

datatype health = ReturnedValue | UsedGlobalRandom

datatype flaky =
    UnreliableAssumption
  | UnreliableResult string
  | UnreliableValues "string option" string
  | UnreliableTestData

datatype exn =
    TypeError
  | ValueError
  | AssertionError
  | AttributeError
  | StructError
  | OverflowError
  | InvalidArgument
  | UnsatisfiedAssumption
  | HypothesisDeprecationWarning
  | FailedHealthCheck health
  | Flaky flaky
  | Timeout
  | Unsatisfiable
  | StopTest nat
  | Raised nat
  | Interrupt nat

datatype pyval = PyNone | PyBool bool | PyInt int | PyObj nat

section \<open>numbers.py: floats as IEEE-754 binary64 bit patterns\<close>

type_synonym double = "64 word"
type_synonym byte = "8 word"
type_synonym bytes = "byte list"

definition isinf :: "double \<Rightarrow> bool" where
  "isinf w = (w AND 0x7FFFFFFFFFFFFFFF = 0x7FF0000000000000)"

definition isnan :: "double \<Rightarrow> bool" where
  "isnan w = (w AND 0x7FF0000000000000 = 0x7FF0000000000000 \<and> w AND 0x000FFFFFFFFFFFFF \<noteq> 0)"

text \<open>Comparison of two doubles: false when either is NaN, and \<open>-0.0 = 0.0\<close>.\<close>

definition float_key :: "double \<Rightarrow> int" where
  "float_key w = (if bit w 63 then - uint (w AND 0x7FFFFFFFFFFFFFFF) else uint (w AND 0x7FFFFFFFFFFFFFFF))"

definition float_le :: "double \<Rightarrow> double \<Rightarrow> bool" where
  "float_le a b = (\<not> isnan a \<and> \<not> isnan b \<and> float_key a \<le> float_key b)"

definition float_lt :: "double \<Rightarrow> double \<Rightarrow> bool" where
  "float_lt a b = (\<not> isnan a \<and> \<not> isnan b \<and> float_key a < float_key b)"

text \<open>\<open>struct.pack(b'!d', f)\<close> and \<open>struct.unpack(b'!d', bs)[0]\<close>: big-endian.\<close>

definition struct_pack_d :: "double \<Rightarrow> bytes" where
  "struct_pack_d w = map (\<lambda>i. ucast (drop_bit (8 * i) w)) [7, 6, 5, 4, 3, 2, 1, 0]"

definition struct_unpack_d :: "bytes \<Rightarrow> exn + double" where
  "struct_unpack_d bs =
     (if length bs = 8 then Inr (foldl (\<lambda>acc b. push_bit 8 acc OR ucast b) 0 bs)
      else Inl StructError)"

text \<open>
  The generator \<open>random\<close> handed to a sampling function: the sequence of raw values it
  will yield, and how many were consumed.
\<close>

type_synonym random = "(nat \<Rightarrow> nat) \<times> nat"

definition scripted :: "nat list \<Rightarrow> random" where
  "scripted xs = ((\<lambda>k. if k < length xs then xs ! k else 0), 0)"

definition randint :: "int \<Rightarrow> int \<Rightarrow> random \<Rightarrow> int \<times> random" where
  "randint a b r = (a + int (fst r (snd r) mod nat (b - a + 1)), (fst r, Suc (snd r)))"

definition choice :: "'a list \<Rightarrow> random \<Rightarrow> 'a \<times> random" where
  "choice xs r = (xs ! (fst r (snd r) mod length xs), (fst r, Suc (snd r)))"

text \<open>\<open>random.random()\<close>: some double in \<open>[0.0, 1.0)\<close>.\<close>

definition random_random :: "random \<Rightarrow> double \<times> random" where
  "random_random r = (word_of_nat (fst r (snd r) mod 0x3FF0000000000000), (fst r, Suc (snd r)))"

text \<open>\<open>bytes(random.randint(0, 255) for _ in range(k))\<close>\<close>

primrec random_bytes :: "nat \<Rightarrow> random \<Rightarrow> bytes \<times> random" where
  "random_bytes 0 r = ([], r)"
| "random_bytes (Suc k) r =
     (case randint 0 255 r of (b, r1) \<Rightarrow>
        (case random_bytes k r1 of (bs, r2) \<Rightarrow> (word_of_int b # bs, r2)))"

text \<open>
  A sampling function as \<open>draw_bytes\<close> receives it. \<open>None\<close> is a call that never
  returns.
\<close>

type_synonym distribution = "random \<Rightarrow> nat \<Rightarrow> (exn + bytes \<times> random) option"

text \<open>
  \<open>data.draw_bytes(n, distribution)\<close> belongs to the byte source, which is not part of
  these files: the strategies below take it as the parameter \<open>draw_bytes\<close>.
\<close>

type_synonym 'd draw_bytes = "'d \<Rightarrow> nat \<Rightarrow> distribution \<Rightarrow> (exn + bytes \<times> 'd) option"

text \<open>
  Modelled from the spec: the byte source (TestData) is missing from the sources; it
  "supports drawing N bytes optionally biased by a supplied sampling function". A fresh
  source owns a generator and asks the sampling function for the bytes.
\<close>

definition sampled_draw_bytes :: "random draw_bytes" where
  "sampled_draw_bytes data n dist = dist data n"

text \<open>
  Modelled from the spec: a byte source "reconstructed from the raw bytes" of a stored
  buffer hands out the next \<open>n\<close> bytes of the buffer whatever the sampling function is, and
  is classified overflow when the buffer is too short.
\<close>

definition replay_draw_bytes :: "(bytes \<times> nat) draw_bytes" where
  "replay_draw_bytes data n dist =
     (case data of (buffer, index) \<Rightarrow>
        if index + n > length buffer then Some (Inl (StopTest 0))
        else Some (Inr (take n (drop index buffer), (buffer, index + n))))"

subsection \<open>BoundedIntStrategy\<close>

record BoundedIntStrategy =
  start :: int
  end' :: int

definition BoundedIntStrategy_init :: "int \<Rightarrow> int \<Rightarrow> exn + BoundedIntStrategy" where
  "BoundedIntStrategy_init s e =
     (if s > e then Inl ValueError else Inr \<lparr>start = s, end' = e\<rparr>)"

text \<open>
  Modelled from the spec: \<open>integer_range\<close> of \<open>hypothesis.internal.conjecture.utils\<close> is
  missing from the sources; "\<open>integer_range(byteSource, start, end)\<close> samples uniformly over
  \<open>[start, end]\<close>". It draws as many bytes as the width of the range needs, with a
  sampling function that picks uniformly, reads them as an unsigned big-endian number and
  folds that number into the range.
\<close>

function bytes_needed :: "int \<Rightarrow> nat" where
  "bytes_needed g = (if g < 256 then 1 else Suc (bytes_needed (g div 256)))"
  by pat_completeness auto
termination
  by (relation "measure nat") auto

declare bytes_needed.simps [simp del]

definition int_to_bytes :: "nat \<Rightarrow> int \<Rightarrow> bytes" where
  "int_to_bytes n v = map (\<lambda>i. word_of_int (v div 256 ^ i)) (rev [0..<n])"

definition int_from_bytes :: "bytes \<Rightarrow> int" where
  "int_from_bytes bs = foldl (\<lambda>acc b. acc * 256 + uint b) 0 bs"

definition uniform_bytes :: "int \<Rightarrow> distribution" where
  "uniform_bytes gap r n =
     (case randint 0 gap r of (v, r1) \<Rightarrow> Some (Inr (int_to_bytes n v, r1)))"

definition integer_range ::
  "'d draw_bytes \<Rightarrow> 'd \<Rightarrow> int \<Rightarrow> int \<Rightarrow> (exn + int \<times> 'd) option" where
  "integer_range draw_bytes data lower upper =
     (let gap = upper - lower
      in case draw_bytes data (bytes_needed gap) (uniform_bytes gap) of
           None \<Rightarrow> None
         | Some (Inl e) \<Rightarrow> Some (Inl e)
         | Some (Inr (bs, data')) \<Rightarrow>
             Some (Inr (lower + int_from_bytes bs mod (gap + 1), data')))"

definition BoundedInt_do_draw ::
  "'d draw_bytes \<Rightarrow> BoundedIntStrategy \<Rightarrow> 'd \<Rightarrow> (exn + int \<times> 'd) option" where
  "BoundedInt_do_draw draw_bytes self data =
     integer_range draw_bytes data (start self) (end' self)"

subsection \<open>FloatStrategy and its subclasses\<close>

definition NASTY_FLOATS :: "double list" where
  "NASTY_FLOATS =
     [0x0000000000000000, 0x3FE0000000000000, 0x3FD5555555555555, 0x416312D000000000,
      0x3EE4F8B588E368F1, 0x38100000000A639B, 0x0010000000000000, 0x7FEFFFFFFFFFFFFF,
      0x47EFFFFFDFF07036, 0x4340000000000000, 0x3FEFFFEB074A771D, 0x400000053E2D6239,
      0x3E800000001C5F68, 0x3CB0000000000000, 0x7FF0000000000000, 0x7FF8000000000000,
      0x8000000000000000, 0xBFE0000000000000, 0xBFD5555555555555, 0xC16312D000000000,
      0xBEE4F8B588E368F1, 0xB8100000000A639B, 0x8010000000000000, 0xFFEFFFFFFFFFFFFF,
      0xC7EFFFFFDFF07036, 0xC340000000000000, 0xBFEFFFEB074A771D, 0xC00000053E2D6239,
      0xBE800000001C5F68, 0xBCB0000000000000, 0xFFF0000000000000, 0xFFF8000000000000]"

record FloatStrategy =
  allow_infinity :: bool
  allow_nan :: bool

text \<open>
  \<open>FloatStrategy.__init__(self, allow_infinity, allow_nan)\<close> applied to the positional
  arguments of a call: Python raises TypeError unless there are exactly two.
\<close>

definition FloatStrategy_init :: "pyval list \<Rightarrow> exn + FloatStrategy" where
  "FloatStrategy_init args =
     (case args of
        [ai, an] \<Rightarrow>
          (case ai of
             PyBool i \<Rightarrow>
               (case an of
                  PyBool n \<Rightarrow> Inr \<lparr>allow_infinity = i, allow_nan = n\<rparr>
                | _ \<Rightarrow> Inl AssertionError)
           | _ \<Rightarrow> Inl AssertionError)
      | _ \<Rightarrow> Inl TypeError)"

record WrapperFloatStrategy = FloatStrategy +
  sub_strategy :: pyval

definition WrapperFloatStrategy_init :: "pyval \<Rightarrow> exn + WrapperFloatStrategy" where
  "WrapperFloatStrategy_init sub =
     (case FloatStrategy_init [] of
        Inl e \<Rightarrow> Inl e
      | Inr s \<Rightarrow> Inr \<lparr>allow_infinity = allow_infinity s, allow_nan = allow_nan s,
                      sub_strategy = sub\<rparr>)"

definition FullRangeFloats_init :: "bool \<Rightarrow> bool \<Rightarrow> exn + FloatStrategy" where
  "FullRangeFloats_init an ai =
     (case FloatStrategy_init [] of
        Inl e \<Rightarrow> Inl e
      | Inr s \<Rightarrow> Inr (s\<lparr>allow_nan := an, allow_infinity := ai\<rparr>))"

text \<open>
  \<open>float(n)\<close> of a Python integer: the nearest double, ties to even, and OverflowError
  when the integer is too large for a double.
\<close>

function bit_length :: "int \<Rightarrow> nat" where
  "bit_length n = (if n \<le> 0 then 0 else Suc (bit_length (n div 2)))"
  by pat_completeness auto
termination
  by (relation "measure nat") auto

declare bit_length.simps [simp del]

definition py_float :: "int \<Rightarrow> exn + double" where
  "py_float n =
     (if n = 0 then Inr 0
      else
        (let m = \<bar>n\<bar>;
             bl = bit_length m;
             q0 = (if bl \<le> 53 then m * 2 ^ (53 - bl)
                   else
                     (let q = m div 2 ^ (bl - 53);
                          r = m mod 2 ^ (bl - 53);
                          half = 2 ^ (bl - 54)
                      in if r > half \<or> (r = half \<and> odd q) then q + 1 else q));
             q1 = (if q0 = 2 ^ 53 then 2 ^ 52 else q0);
             ex = (if q0 = 2 ^ 53 then bl else bl - 1)
         in if ex > 1023 then Inl OverflowError
            else Inr ((if n < 0 then 0x8000000000000000 else 0)
                      OR push_bit 52 (word_of_nat (ex + 1023))
                      OR word_of_int (q1 - 2 ^ 52))))"

record FixedBoundedFloatStrategy =
  fixed_lower_bound :: double
  fixed_upper_bound :: double

definition FixedBoundedFloatStrategy_init :: "int \<Rightarrow> int \<Rightarrow> exn + FixedBoundedFloatStrategy" where
  "FixedBoundedFloatStrategy_init lo hi =
     (case py_float lo of
        Inl e \<Rightarrow> Inl e
      | Inr l \<Rightarrow>
          (case py_float hi of
             Inl e \<Rightarrow> Inl e
           | Inr h \<Rightarrow> Inr \<lparr>fixed_lower_bound = l, fixed_upper_bound = h\<rparr>))"

record BoundedFloatStrategy = FloatStrategy +
  inner_strategy :: FixedBoundedFloatStrategy

definition BoundedFloatStrategy_init :: "exn + BoundedFloatStrategy" where
  "BoundedFloatStrategy_init =
     (case FloatStrategy_init [] of
        Inl e \<Rightarrow> Inl e
      | Inr s \<Rightarrow>
          (case FixedBoundedFloatStrategy_init 0 1 of
             Inl e \<Rightarrow> Inl e
           | Inr inner \<Rightarrow>
               Inr \<lparr>allow_infinity = allow_infinity s, allow_nan = allow_nan s,
                    inner_strategy = inner\<rparr>))"

subsection \<open>WrapperFloatStrategy.do_draw\<close>

definition permitted :: "'a FloatStrategy_scheme \<Rightarrow> double \<Rightarrow> bool" where
  "permitted self f =
     (if \<not> allow_infinity self \<and> isinf f then False
      else if \<not> allow_nan self \<and> isnan f then False
      else True)"

text \<open>The \<open>while True\<close> loop of \<open>draw_float_bytes\<close>.\<close>

partial_function (option) draw_float_loop ::
  "bool \<times> bool \<Rightarrow> random \<Rightarrow> (exn + bytes \<times> random) option" where
  "draw_float_loop flags r =
     (case randint 1 10 r of (i, r1) \<Rightarrow>
        if i \<le> 4 then
          (case choice NASTY_FLOATS r1 of (f, r2) \<Rightarrow>
             if permitted \<lparr>allow_infinity = fst flags, allow_nan = snd flags\<rparr> f
             then Some (Inr (struct_pack_d f, r2))
             else draw_float_loop flags r2)
        else (case random_bytes 8 r1 of (bs, r2) \<Rightarrow> Some (Inr (bs, r2))))"

declare draw_float_loop.simps [code]

definition draw_float_bytes :: "'a FloatStrategy_scheme \<Rightarrow> distribution" where
  "draw_float_bytes self r n =
     (if n \<noteq> 8 then Some (Inl AssertionError)
      else draw_float_loop (allow_infinity self, allow_nan self) r)"

definition WrapperFloat_do_draw ::
  "'d draw_bytes \<Rightarrow> 'a FloatStrategy_scheme \<Rightarrow> 'd \<Rightarrow> (exn + double \<times> 'd) option" where
  "WrapperFloat_do_draw draw_bytes self data =
     (case draw_bytes data 8 (draw_float_bytes self) of
        None \<Rightarrow> None
      | Some (Inl e) \<Rightarrow> Some (Inl e)
      | Some (Inr (bs, data')) \<Rightarrow>
          (case struct_unpack_d bs of
             Inl e \<Rightarrow> Some (Inl e)
           | Inr f \<Rightarrow> Some (Inr (f, data'))))"

subsection \<open>ExponentialFloatStrategy.do_draw\<close>

text \<open>
  The class inherits \<open>FloatStrategy.__init__\<close> and sets neither \<open>lower_bound\<close> nor
  \<open>upper_bound\<close>: an instance has them only when they were assigned from outside, and
  reading a missing attribute raises AttributeError.
\<close>

record ExponentialFloatStrategy = FloatStrategy +
  lower_bound :: "double option"
  upper_bound :: "double option"

definition getattr :: "'a option \<Rightarrow> exn + 'a" where
  "getattr a = (case a of None \<Rightarrow> Inl AttributeError | Some v \<Rightarrow> Inr v)"

text \<open>
  Floating-point addition, subtraction and multiplication are parameters: the claims do
  not depend on how they round.
\<close>

record float_arith =
  fadd :: "double \<Rightarrow> double \<Rightarrow> double"
  fsub :: "double \<Rightarrow> double \<Rightarrow> double"
  fmul :: "double \<Rightarrow> double \<Rightarrow> double"

definition exponential_distribution ::
  "float_arith \<Rightarrow> ExponentialFloatStrategy \<Rightarrow> distribution" where
  "exponential_distribution fa self r n =
     (if n \<noteq> 8 then Some (Inl AssertionError)
      else
        (case randint 0 10 r of (i, r1) \<Rightarrow>
           if i = 0 then
             (case getattr (lower_bound self) of
                Inl e \<Rightarrow> Some (Inl e)
              | Inr f \<Rightarrow> Some (Inr (struct_pack_d f, r1)))
           else if i = 1 then
             (case getattr (upper_bound self) of
                Inl e \<Rightarrow> Some (Inl e)
              | Inr f \<Rightarrow> Some (Inr (struct_pack_d f, r1)))
           else
             (case getattr (upper_bound self) of
                Inl e \<Rightarrow> Some (Inl e)
              | Inr upper \<Rightarrow>
                  (case getattr (lower_bound self) of
                     Inl e \<Rightarrow> Some (Inl e)
                   | Inr lower \<Rightarrow>
                       (case (if float_lt lower 0 \<and> float_lt 0 upper
                              then (case randint 0 1 r1 of (c, r2) \<Rightarrow>
                                      if c \<noteq> 0 then (0, upper, r2)
                                      else (lower, 0x8000000000000000, r2))
                              else (lower, upper, r1)) of
                          (lower', upper', r2) \<Rightarrow>
                            (case random_random r2 of (u, r3) \<Rightarrow>
                               Some (Inr (struct_pack_d
                                 (fadd fa lower' (fmul fa (fsub fa upper' lower') u)), r3))))))))"

text \<open>
  Modelled from the spec: \<open>assume\<close> of \<open>hypothesis.control\<close> is missing from the sources; a
  condition that does not hold is "treated as an unsatisfied precondition".
\<close>

definition assume' :: "bool \<Rightarrow> exn + bool" where
  "assume' c = (if c then Inr True else Inl UnsatisfiedAssumption)"

text \<open>
  \<open>sign\<close> of \<open>hypothesis.internal.floats\<close> is not part of these files: it is the parameter
  \<open>sign\<close>.
\<close>

text \<open>
  Python's chained comparison \<open>a <= f <= b\<close>: \<open>b\<close> is evaluated only when \<open>a <= f\<close>
  holds.
\<close>

definition chained_le :: "double \<Rightarrow> double \<Rightarrow> exn + double \<Rightarrow> exn + bool" where
  "chained_le a f b =
     (if float_le a f then (case b of Inl e \<Rightarrow> Inl e | Inr b' \<Rightarrow> Inr (float_le f b'))
      else Inr False)"

definition Exponential_do_draw ::
  "float_arith \<Rightarrow> (double \<Rightarrow> double) \<Rightarrow> 'd draw_bytes \<Rightarrow> ExponentialFloatStrategy \<Rightarrow> 'd
     \<Rightarrow> (exn + double \<times> 'd) option" where
  "Exponential_do_draw fa sign draw_bytes self data =
     (case draw_bytes data 8 (exponential_distribution fa self) of
        None \<Rightarrow> None
      | Some (Inl e) \<Rightarrow> Some (Inl e)
      | Some (Inr (bs, data')) \<Rightarrow>
          (case struct_unpack_d bs of
             Inl e \<Rightarrow> Some (Inl e)
           | Inr f \<Rightarrow>
               (case getattr (lower_bound self) of
                  Inl e \<Rightarrow> Some (Inl e)
                | Inr lo \<Rightarrow>
                    (case chained_le lo f (getattr (upper_bound self)) of
                       Inl e \<Rightarrow> Some (Inl e)
                     | Inr c1 \<Rightarrow>
                         (case assume' c1 of
                            Inl e \<Rightarrow> Some (Inl e)
                          | Inr _ \<Rightarrow>
                              (case chained_le (sign lo) (sign f)
                                      (map_sum id sign (getattr (upper_bound self))) of
                                 Inl e \<Rightarrow> Some (Inl e)
                               | Inr c2 \<Rightarrow>
                                   (case assume' c2 of
                                      Inl e \<Rightarrow> Some (Inl e)
                                    | Inr _ \<Rightarrow> Some (Inr (f, data')))))))))"

text \<open>The sign class by the sign bit, \<open>1.0\<close> or \<open>-1.0\<close>, for the witnesses.\<close>

definition copysign_one :: "double \<Rightarrow> double" where
  "copysign_one x = (if bit x 63 then 0xBFF0000000000000 else 0x3FF0000000000000)"

section \<open>core.py: the test orchestrator\<close>

subsection \<open>Collaborators\<close>

text \<open>
  Modelled from the spec: the classification of a byte source (the \<open>Status\<close> enumeration
  of the missing byte-source module): "valid / invalid / interesting / overflow", ordered so
  that overflow and invalid are "below valid".
\<close>

datatype Status = OVERRUN | INVALID | VALID | INTERESTING

fun status_rank :: "Status \<Rightarrow> nat" where
  "status_rank OVERRUN = 0"
| "status_rank INVALID = 1"
| "status_rank VALID = 2"
| "status_rank INTERESTING = 3"

record TestData =
  ident :: nat
  buffer :: bytes
  status :: Status
  frozen :: bool

record settings =
  max_examples :: int
  min_satisfying_examples :: int
  timeout :: int
  strict :: bool
  perform_health_check :: bool
  database :: "bytes list option"

text \<open>
  Every call that leaves the orchestrator is recorded, in order: a draw of the strategy
  from a byte source (with the buffer of the source), running the test body, the reporter,
  warnings, reads of the global random state, byte sources built from a
  buffer, the classification read back in the replay loop, database writes, and the start
  of the engine.
\<close>

datatype message =
    FalsifyingExample string
  | TryingExample string
  | Traceback exn
  | FailedToReproduce exn
  | Note string

datatype event =
    Drew bytes
  | Executed string
  | Reported message
  | Snapshot
  | Checked
  | HealthFailure health
  | Warned health
  | Created bytes
  | Classified bytes Status
  | Deleted bytes
  | Saved bytes
  | EngineRun

text \<open>
  The mutable cells of one call of \<open>wrapped_test\<close> (\<open>warned_random\<close>, \<open>last_exception\<close>,
  \<open>repr_for_last_exception\<close>), the number of executions so far, the next identity of a byte
  source, the stored buffers of the database under this test's key, and the record of
  calls.
\<close>

record run_state =
  warned_random :: bool
  last_exception :: "exn option"
  repr_for_last_exception :: "string option"
  calls :: nat
  fresh :: nat
  db :: "bytes list"
  trace :: "event list"

datatype 'v drawn = Drawn "string \<rightharpoonup> 'v" | Overdrawn | DrawRaises exn

text \<open>
  The user's test and the declared strategies are inputs. The test body may behave
  differently on every execution, so it is indexed by the number of executions before it.
  Modelled from the spec: strategies are not part of these files; "all generators are pure
  transformations draw(byteSource) -> T", so the draw of the keyword strategies is a
  function of the buffer: a dictionary, a draw past the end of the buffer, or an exception.
\<close>

record 'v env =
  arg_string :: "'v list \<Rightarrow> (string \<rightharpoonup> 'v) \<Rightarrow> string"
  body :: "nat \<Rightarrow> 'v list \<Rightarrow> (string \<rightharpoonup> 'v) \<Rightarrow> exn + pyval"
  build_notes :: "nat \<Rightarrow> string list"
  argspec_args :: "string list"
  strategy_draw :: "bytes \<Rightarrow> 'v drawn"
  validate :: "exn option"
  touched_random :: "bytes \<Rightarrow> nat \<Rightarrow> bool"
  verbose :: bool
  run_time :: int

record 'v Example =
  args :: "'v list"
  kwargs :: "string \<rightharpoonup> 'v"

definition log :: "event \<Rightarrow> run_state \<Rightarrow> run_state" where
  "log e st = st\<lparr>trace := trace st @ [e]\<rparr>"

definition report :: "message \<Rightarrow> run_state \<Rightarrow> run_state" where
  "report m st = log (Reported m) st"

fun report_all :: "message list \<Rightarrow> run_state \<Rightarrow> run_state" where
  "report_all [] st = st"
| "report_all (m # ms) st = report_all ms (report m st)"

definition is_Exception :: "exn \<Rightarrow> bool" where
  "is_Exception e = (case e of StopTest _ \<Rightarrow> False | Interrupt _ \<Rightarrow> False | _ \<Rightarrow> True)"

definition is_FailedHealthCheck :: "exn \<Rightarrow> bool" where
  "is_FailedHealthCheck e = (case e of FailedHealthCheck _ \<Rightarrow> True | _ \<Rightarrow> False)"

text \<open>\<open>TestData.for_buffer(buffer)\<close>: a new byte source over a stored buffer.\<close>

definition for_buffer :: "bytes \<Rightarrow> run_state \<Rightarrow> TestData \<times> run_state" where
  "for_buffer b st =
     (\<lparr>ident = fresh st, buffer = b, status = VALID, frozen = False\<rparr>,
      log (Created b) (st\<lparr>fresh := Suc (fresh st)\<rparr>))"

text \<open>
  Modelled from the spec: \<open>mark_invalid\<close> and \<open>mark_interesting\<close> belong to the missing
  byte source. "Once classified as interesting or invalid it is frozen"; the test is
  stopped with the \<open>StopTest\<close> signal carrying the source, which the replay loop expects.
\<close>

definition mark_invalid :: "TestData \<Rightarrow> TestData \<times> exn option" where
  "mark_invalid d = (d\<lparr>status := INVALID, frozen := True\<rparr>, Some (StopTest (ident d)))"

definition mark_interesting :: "TestData \<Rightarrow> TestData \<times> exn option" where
  "mark_interesting d = (d\<lparr>status := INTERESTING, frozen := True\<rparr>, Some (StopTest (ident d)))"

text \<open>
  Modelled from the spec: the database is a "fetch / save / delete key-value store"; under
  one key it is the list of stored buffers.
\<close>

definition db_delete :: "bytes \<Rightarrow> run_state \<Rightarrow> run_state" where
  "db_delete b st = log (Deleted b) (st\<lparr>db := removeAll b (db st)\<rparr>)"

definition db_save :: "bytes \<Rightarrow> run_state \<Rightarrow> run_state" where
  "db_save b st = log (Saved b) (st\<lparr>db := (if b \<in> set (db st) then db st else db st @ [b])\<rparr>)"

subsection \<open>Running the test\<close>

text \<open>
  Modelled from the spec: the executor is not part of these files; "default is direct
  invocation", so \<open>test_runner(f)\<close> is \<open>f()\<close>.
\<close>

definition call_test ::
  "'v env \<Rightarrow> 'v list \<Rightarrow> (string \<rightharpoonup> 'v) \<Rightarrow> run_state \<Rightarrow> run_state \<times> (exn + pyval)" where
  "call_test env arguments kw st =
     (log (Executed (arg_string env arguments kw)) (st\<lparr>calls := Suc (calls st)\<rparr>),
      body env (calls st) arguments kw)"

text \<open>
  \<open>test_is_flaky(test, expected_repr)\<close>: a replacement for the test that always raises
  Flaky; the message says whether the call text equals the expected one.
\<close>

definition test_or_flaky :: "string option \<Rightarrow> string \<Rightarrow> exn" where
  "test_or_flaky expected_repr text_repr =
     (if Some text_repr = expected_repr then Flaky (UnreliableResult text_repr)
      else Flaky (UnreliableValues expected_repr text_repr))"

datatype callee = Test | TestOrFlaky "string option"

text \<open>
  \<open>reify_and_execute(search_strategy, data, test, print_example, record_repr)\<close> run by the
  executor. The strategy is \<open>tuples(just(arguments), fixed_dictionaries(...).map(...))\<close>:
  the positional arguments as they are, and the drawn dictionary updated with the keyword
  arguments of the call. The third component of the result is \<open>record_repr[0]\<close>.
\<close>

definition reify_and_execute ::
  "'v env \<Rightarrow> 'v list \<Rightarrow> (string \<rightharpoonup> 'v) \<Rightarrow> callee \<Rightarrow> bool \<Rightarrow> TestData \<Rightarrow> run_state
     \<Rightarrow> run_state \<times> TestData \<times> string option \<times> (exn + pyval)" where
  "reify_and_execute env arguments kw test print_example data st =
     (let st0 = log (Drew (buffer data)) st
      in case strategy_draw env (buffer data) of
           Overdrawn \<Rightarrow>
             (st0, data\<lparr>status := OVERRUN, frozen := True\<rparr>, None, Inl (StopTest (ident data)))
         | DrawRaises e \<Rightarrow> (st0, data, None, Inl e)
         | Drawn drawn_kw \<Rightarrow>
             (let text_version = arg_string env arguments (drawn_kw ++ kw);
                  st1 = (if print_example then report (FalsifyingExample text_version) st0
                         else if verbose env then report (TryingExample text_version) st0
                         else st0)
              in case test of
                   Test \<Rightarrow>
                     (case call_test env arguments (drawn_kw ++ kw) st1 of
                        (st2, r) \<Rightarrow> (st2, data, Some text_version, r))
                 | TestOrFlaky expected_repr \<Rightarrow>
                     (st1, data, Some text_version,
                      Inl (test_or_flaky expected_repr text_version))))"

definition fail_health_check :: "settings \<Rightarrow> health \<Rightarrow> run_state \<Rightarrow> run_state \<times> exn option" where
  "fail_health_check s m st =
     (if strict s then (log (HealthFailure m) st, Some (FailedHealthCheck m))
      else (log (Warned m) (log (HealthFailure m) st), None))"

text \<open>The \<open>except\<close> clauses of \<open>evaluate_test_data\<close>, in their order.\<close>

definition handle_exception ::
  "'v env \<Rightarrow> exn \<Rightarrow> string option \<Rightarrow> TestData \<Rightarrow> run_state
     \<Rightarrow> run_state \<times> TestData \<times> exn option" where
  "handle_exception env e record_repr data st =
     (if e = UnsatisfiedAssumption then
        (case mark_invalid data of (data', signal) \<Rightarrow> (st, data', signal))
      else if e = HypothesisDeprecationWarning \<or> is_FailedHealthCheck e then (st, data, Some e)
      else if is_Exception e then
        (let st1 = st\<lparr>last_exception := Some e, repr_for_last_exception := record_repr\<rparr>;
             st2 = (if verbose env then report (Traceback e) st1 else st1)
         in if \<not> frozen data then
              (case mark_interesting data of (data', signal) \<Rightarrow> (st2, data', signal))
            else (st2, data, None))
      else (st, data, Some e))"

text \<open>
  \<open>evaluate_test_data(data)\<close>, in two parts: the \<open>try\<close> statement with its \<open>except\<close>
  clauses, and the \<open>finally\<close> block. \<open>phc\<close> is the local \<open>perform_health_check\<close>. The
  result is the state, the byte source as the call left it, and the exception that leaves
  the call, if any. An exception raised in the \<open>finally\<close> block replaces the one in flight.
\<close>

definition evaluate_try ::
  "'v env \<Rightarrow> settings \<Rightarrow> 'v list \<Rightarrow> (string \<rightharpoonup> 'v) \<Rightarrow> TestData \<Rightarrow> run_state
     \<Rightarrow> run_state \<times> TestData \<times> exn option" where
  "evaluate_try env s arguments kw data st =
     (case reify_and_execute env arguments kw Test False data st of
        (st1, data1, record_repr, r) \<Rightarrow>
          (case r of
             Inr result \<Rightarrow>
               if result \<noteq> PyNone \<and> perform_health_check s
               then (st1, data1, Some (FailedHealthCheck ReturnedValue))
               else (st1, data1, None)
           | Inl e \<Rightarrow> handle_exception env e record_repr data1 st1))"

definition evaluate_finally ::
  "'v env \<Rightarrow> settings \<Rightarrow> bool \<Rightarrow> bytes \<Rightarrow> run_state \<times> TestData \<times> exn option
     \<Rightarrow> run_state \<times> TestData \<times> exn option" where
  "evaluate_finally env s phc b outcome =
     (case outcome of
        (st2, data2, leaving) \<Rightarrow>
          if \<not> warned_random st2 \<and> phc then
            (let st3 = log Checked st2
             in if touched_random env b (calls st3) then
                  (case fail_health_check s UsedGlobalRandom (st3\<lparr>warned_random := True\<rparr>) of
                     (st4, Some e) \<Rightarrow> (st4, data2, Some e)
                   | (st4, None) \<Rightarrow> (st4, data2, leaving))
                else (st3, data2, leaving))
          else (st2, data2, leaving))"

definition evaluate_test_data ::
  "'v env \<Rightarrow> settings \<Rightarrow> 'v list \<Rightarrow> (string \<rightharpoonup> 'v) \<Rightarrow> bool \<Rightarrow> TestData \<Rightarrow> run_state
     \<Rightarrow> run_state \<times> TestData \<times> exn option" where
  "evaluate_test_data env s arguments kw phc data st =
     evaluate_finally env s phc (buffer data)
       (evaluate_try env s arguments kw data
          (if phc \<and> \<not> warned_random st then log Snapshot st else st))"

subsection \<open>Phase 1: explicit examples\<close>

text \<open>
  The keyword arguments of one example: positional values are bound to the last names
  of the test's argument list, then the keyword arguments of the call are merged in.
\<close>

definition example_kwargs :: "'v env \<Rightarrow> (string \<rightharpoonup> 'v) \<Rightarrow> 'v Example \<Rightarrow> (string \<rightharpoonup> 'v)" where
  "example_kwargs env kw example =
     (if args example \<noteq> [] then
        map_of (rev (zip (drop (length (argspec_args env) - length (args example))
                            (argspec_args env)) (args example)))
      else kwargs example) ++ kw"

text \<open>
  The loop over \<open>reversed(hypothesis_explicit_examples)\<close>, given the list already
  reversed. The result is the exception that leaves the loop, if any.
\<close>

fun run_examples ::
  "'v env \<Rightarrow> 'v list \<Rightarrow> (string \<rightharpoonup> 'v) \<Rightarrow> 'v Example list \<Rightarrow> run_state
     \<Rightarrow> run_state \<times> exn option" where
  "run_examples env arguments kw [] st = (st, None)"
| "run_examples env arguments kw (example # rest) st =
     (let ekw = example_kwargs env kw example;
          message_on_failure = FalsifyingExample (arg_string env arguments ekw);
          n = calls st
      in case call_test env arguments ekw st of
           (st1, Inl e) \<Rightarrow>
             (report_all (map Note (build_notes env n)) (report message_on_failure st1), Some e)
         | (st1, Inr _) \<Rightarrow> run_examples env arguments kw rest st1)"

subsection \<open>Phase 2: replay of the database\<close>

text \<open>
  \<open>except StopTest as e: if e.data is not data: raise\<close>: an exception leaves the loop
  unless it is the stop signal of the byte source being replayed.
\<close>

definition leaves_loop :: "exn option \<Rightarrow> TestData \<Rightarrow> bool" where
  "leaves_loop leaving data =
     (case leaving of
        None \<Rightarrow> False
      | Some (StopTest i) \<Rightarrow> i \<noteq> ident data
      | Some _ \<Rightarrow> True)"

fun replay ::
  "'v env \<Rightarrow> settings \<Rightarrow> 'v list \<Rightarrow> (string \<rightharpoonup> 'v) \<Rightarrow> bool \<Rightarrow> bytes list \<Rightarrow> run_state
     \<Rightarrow> run_state \<times> (exn + bytes option)" where
  "replay env s arguments kw phc [] st = (st, Inr None)"
| "replay env s arguments kw phc (existing # rest) st =
     (case for_buffer existing st of
        (data, st0) \<Rightarrow>
          (case evaluate_test_data env s arguments kw phc data st0 of
             (st1, data1, leaving) \<Rightarrow>
               if leaves_loop leaving data then (st1, Inl (the leaving))
               else
                 (let st2 = log (Classified existing (status data1)) st1;
                      st3 = (if status_rank (status data1) < status_rank VALID
                             then db_delete existing st2 else st2)
                  in if status data1 = INTERESTING then (st3, Inr (Some existing))
                     else replay env s arguments kw phc rest st3)))"

subsection \<open>Phase 3: the search\<close>

text \<open>
  The engine (\<open>TestRunner\<close>) is not part of these files. All it can do to the orchestrator
  is call \<open>evaluate_test_data\<close> on byte sources of its own and look at what comes back, so
  it is a tree: it finishes with \<open>last_data\<close> and \<open>valid_examples\<close>, it raises, or it
  evaluates a candidate and goes on according to the classification and the exception
  it saw.
\<close>

record runner =
  last_data :: TestData
  valid_examples :: int

datatype engine =
    Finished runner
  | Crashed exn
  | Evaluate bytes "Status \<times> exn option \<Rightarrow> engine"

primrec run_engine ::
  "(TestData \<Rightarrow> run_state \<Rightarrow> run_state \<times> TestData \<times> exn option) \<Rightarrow> engine \<Rightarrow> run_state
     \<Rightarrow> run_state \<times> (exn + runner)" where
  "run_engine callback (Finished r) st = (st, Inr r)"
| "run_engine callback (Crashed e) st = (st, Inl e)"
| "run_engine callback (Evaluate b k) st =
     (case callback \<lparr>ident = fresh st, buffer = b, status = VALID, frozen = False\<rparr>
             (st\<lparr>fresh := Suc (fresh st)\<rparr>) of
        (st1, data1, leaving) \<Rightarrow> run_engine callback (k (status data1, leaving)) st1)"

text \<open>
  \<open>runner.run()\<close> and the classification of its outcome: the falsifying buffer, an error,
  or nothing (\<open>Inr None\<close>: the \<open>return\<close> of the source).
\<close>

definition search ::
  "'v env \<Rightarrow> settings \<Rightarrow> 'v list \<Rightarrow> (string \<rightharpoonup> 'v) \<Rightarrow> bool \<Rightarrow> engine \<Rightarrow> run_state
     \<Rightarrow> run_state \<times> (exn + bytes option)" where
  "search env s arguments kw phc eng st =
     (case run_engine (evaluate_test_data env s arguments kw phc) eng (log EngineRun st) of
        (st1, Inl e) \<Rightarrow> (st1, Inl e)
      | (st1, Inr r) \<Rightarrow>
          (let timed_out = (timeout s > 0 \<and> run_time env \<ge> timeout s)
           in if status (last_data r) = INTERESTING then
                ((if database s \<noteq> None then db_save (buffer (last_data r)) st1 else st1),
                 Inr (Some (buffer (last_data r))))
              else if valid_examples r < min (min_satisfying_examples s) (max_examples s) then
                (if timed_out then (st1, Inl Timeout) else (st1, Inl Unsatisfiable))
              else (st1, Inr None)))"

subsection \<open>Phase 4: reproducing the failure\<close>

definition reproduce ::
  "'v env \<Rightarrow> 'v list \<Rightarrow> (string \<rightharpoonup> 'v) \<Rightarrow> bytes \<Rightarrow> run_state \<Rightarrow> run_state \<times> (exn + unit)" where
  "reproduce env arguments kw falsifying_example st =
     (case last_exception st of
        None \<Rightarrow> (st, Inl AssertionError)
      | Some original \<Rightarrow>
          (case for_buffer falsifying_example st of
             (data, st0) \<Rightarrow>
               (case reify_and_execute env arguments kw Test True data st0 of
                  (st1, _, _, Inl e) \<Rightarrow>
                    if e = UnsatisfiedAssumption
                    then (report (Traceback e) st1, Inl (Flaky UnreliableAssumption))
                    else (st1, Inl e)
                | (st1, _, _, Inr _) \<Rightarrow>
                    (case for_buffer falsifying_example (report (FailedToReproduce original) st1) of
                       (data2, st2) \<Rightarrow>
                         (case reify_and_execute env arguments kw
                                 (TestOrFlaky (repr_for_last_exception st)) True data2 st2 of
                            (st3, _, _, Inl e) \<Rightarrow>
                              if e = UnsatisfiedAssumption
                              then (st3, Inl (Flaky UnreliableTestData))
                              else (st3, Inl e)
                          | (st3, _, _, Inr _) \<Rightarrow>
                              (case for_buffer falsifying_example st3 of
                                 (data3, st4) \<Rightarrow>
                                   (case reify_and_execute env arguments kw
                                           (TestOrFlaky (repr_for_last_exception st)) True
                                           data3 st4 of
                                      (st5, _, _, Inl e) \<Rightarrow> (st5, Inl e)
                                    | (st5, _, _, Inr _) \<Rightarrow> (st5, Inr ()))))))))"

subsection \<open>wrapped_test\<close>

definition initial_state :: "settings \<Rightarrow> run_state" where
  "initial_state s =
     \<lparr>warned_random = False, last_exception = None, repr_for_last_exception = None,
      calls = 0, fresh = 0, db = (case database s of None \<Rightarrow> [] | Some bs \<Rightarrow> bs),
      trace = []\<rparr>"

definition local_perform_health_check :: "settings \<Rightarrow> settings option \<Rightarrow> bool" where
  "local_perform_health_check s default_settings =
     (case default_settings of
        None \<Rightarrow> perform_health_check s
      | Some d \<Rightarrow> perform_health_check s \<and> perform_health_check d)"

text \<open>
  Everything of \<open>wrapped_test\<close> up to the point where \<open>falsifying_example\<close> is known:
  explicit examples, the \<open>max_examples <= 0\<close> exit, validation, replay, search. \<open>Inr None\<close>
  is a normal return, \<open>Inr (Some b)\<close> the falsifying buffer.
\<close>

definition find_falsifying_example ::
  "'v env \<Rightarrow> settings \<Rightarrow> settings option \<Rightarrow> 'v Example list \<Rightarrow> 'v list \<Rightarrow> (string \<rightharpoonup> 'v)
     \<Rightarrow> engine \<Rightarrow> run_state \<times> (exn + bytes option)" where
  "find_falsifying_example env s default_settings examples arguments kw eng =
     (case run_examples env arguments kw (rev examples) (initial_state s) of
        (st1, Some e) \<Rightarrow> (st1, Inl e)
      | (st1, None) \<Rightarrow>
          if max_examples s \<le> 0 then (st1, Inr None)
          else
            (case validate env of
               Some e \<Rightarrow> (st1, Inl e)
             | None \<Rightarrow>
                 (let phc = local_perform_health_check s default_settings
                  in case (case database s of
                             None \<Rightarrow> (st1, Inr None)
                           | Some _ \<Rightarrow> replay env s arguments kw phc (db st1) st1) of
                       (st2, Inl e) \<Rightarrow> (st2, Inl e)
                     | (st2, Inr (Some b)) \<Rightarrow> (st2, Inr (Some b))
                     | (st2, Inr None) \<Rightarrow> search env s arguments kw phc eng st2)))"

definition wrapped_test ::
  "'v env \<Rightarrow> settings \<Rightarrow> settings option \<Rightarrow> 'v Example list \<Rightarrow> 'v list \<Rightarrow> (string \<rightharpoonup> 'v)
     \<Rightarrow> engine \<Rightarrow> run_state \<times> (exn + unit)" where
  "wrapped_test env s default_settings examples arguments kw eng =
     (case find_falsifying_example env s default_settings examples arguments kw eng of
        (st, Inl e) \<Rightarrow> (st, Inl e)
      | (st, Inr None) \<Rightarrow> (st, Inr ())
      | (st, Inr (Some falsifying_example)) \<Rightarrow>
          reproduce env arguments kw falsifying_example st)"


subsection \<open>Reading the record of calls\<close>

text \<open>\<open>extends P st st'\<close>: \<open>st'\<close> has the record of \<open>st\<close> followed by events that satisfy \<open>P\<close>.\<close>

definition extends :: "(event \<Rightarrow> bool) \<Rightarrow> run_state \<Rightarrow> run_state \<Rightarrow> bool" where
  "extends P st st' = (\<exists>evs. trace st' = trace st @ evs \<and> list_all P evs)"

fun is_test_event :: "event \<Rightarrow> bool" where
  "is_test_event (Drew b) = True"
| "is_test_event (Executed t) = True"
| "is_test_event (Reported m) = True"
| "is_test_event e = False"

fun is_health_event :: "event \<Rightarrow> bool" where
  "is_health_event Snapshot = True"
| "is_health_event Checked = True"
| "is_health_event (HealthFailure m) = True"
| "is_health_event (Warned m) = True"
| "is_health_event e = False"

fun is_source_event :: "event \<Rightarrow> bool" where
  "is_source_event (Created b) = True"
| "is_source_event (Classified b c) = True"
| "is_source_event (Deleted b) = True"
| "is_source_event (Saved b) = True"
| "is_source_event e = False"

text \<open>The classifications the replay loop read, in order.\<close>

fun classified :: "event list \<Rightarrow> (bytes \<times> Status) list" where
  "classified [] = []"
| "classified (Classified b c # es) = (b, c) # classified es"
| "classified (e # es) = classified es"

text \<open>
  The buffers byte sources were built from, in order, and the buffers among the
  classified ones whose classification is below valid.
\<close>

fun created :: "event list \<Rightarrow> bytes list" where
  "created [] = []"
| "created (Created b # es) = b # created es"
| "created (e # es) = created es"

definition below_valid :: "(bytes \<times> Status) list \<Rightarrow> bytes list" where
  "below_valid cs = map fst (filter (\<lambda>x. status_rank (snd x) < status_rank VALID) cs)"

text \<open>
  The health check of the global random state has fired when \<open>fail_health_check\<close> was
  called for it. A record is quiet after the fire when nothing after the first fire is
  another fire, a snapshot or a check of the global random state.
\<close>

definition calm :: "event \<Rightarrow> bool" where
  "calm e = (e \<noteq> HealthFailure UsedGlobalRandom \<and> e \<noteq> Snapshot \<and> e \<noteq> Checked)"

fun quiet_after_fire :: "event list \<Rightarrow> bool" where
  "quiet_after_fire [] = True"
| "quiet_after_fire (e # es) =
     (if e = HealthFailure UsedGlobalRandom then list_all calm es else quiet_after_fire es)"

text \<open>
  What holds of the state between two steps: before the fire the record has no fire, after
  it (\<open>warned_random\<close> set) the record is quiet.
\<close>

definition fire_inv :: "run_state \<Rightarrow> bool" where
  "fire_inv st =
     (if warned_random st then quiet_after_fire (trace st)
      else HealthFailure UsedGlobalRandom \<notin> set (trace st))"

text \<open>The text of the call an explicit example makes.\<close>

definition example_text :: "'v env \<Rightarrow> 'v list \<Rightarrow> (string \<rightharpoonup> 'v) \<Rightarrow> 'v Example \<Rightarrow> string" where
  "example_text env arguments kw example =
     arg_string env arguments (example_kwargs env kw example)"

subsection \<open>Concrete inputs\<close>

text \<open>
  A test of one argument \<open>x\<close> whose \<open>n\<close>-th execution ends as \<open>outcome n\<close> says, with a
  strategy that draws as \<open>draw\<close> says, and settings that differ in the database only.
\<close>

definition demo_env :: "(nat \<Rightarrow> exn + pyval) \<Rightarrow> (bytes \<Rightarrow> int drawn) \<Rightarrow> int env" where
  "demo_env outcome draw =
     \<lparr>arg_string = (\<lambda>a k. ''x''), body = (\<lambda>n a k. outcome n), build_notes = (\<lambda>n. []),
      argspec_args = [''x''], strategy_draw = draw, validate = None,
      touched_random = (\<lambda>b n. False), verbose = False, run_time = 0\<rparr>"

definition demo_settings :: "bytes list option \<Rightarrow> settings" where
  "demo_settings stored =
     \<lparr>max_examples = 100, min_satisfying_examples = 5, timeout = 60, strict = False,
      perform_health_check = True, database = stored\<rparr>"

definition idle_engine :: engine where
  "idle_engine =
     Finished \<lparr>last_data = \<lparr>ident = 0, buffer = [], status = VALID, frozen = False\<rparr>,
               valid_examples = 0\<rparr>"

text \<open>A test that fails on its first execution and passes afterwards.\<close>

definition fails_once :: "nat \<Rightarrow> exn + pyval" where
  "fails_once n = (if n = 0 then Inl (Raised 0) else Inr PyNone)"

text \<open>A call text that shows the value bound to \<open>x\<close>, and a test that fails on its second execution.\<close>

definition show_x :: "int list \<Rightarrow> (string \<rightharpoonup> int) \<Rightarrow> string" where
  "show_x a k =
     (if k ''x'' = Some 1 then ''x=1'' else if k ''x'' = Some 2 then ''x=2'' else ''x=?'')"

definition fails_second :: "nat \<Rightarrow> exn + pyval" where
  "fails_second n = (if n = 1 then Inl (Raised 7) else Inr PyNone)"

section \<open>Properties of numbers.py\<close>

lemma eight_Suc: "(8::nat) = Suc (Suc (Suc (Suc (Suc (Suc (Suc (Suc 0)))))))"
  by simp

lemma random_bytes_8:
  "random_bytes 8 (g, p) =
     ([word_of_nat (g p mod 256), word_of_nat (g (Suc p) mod 256),
       word_of_nat (g (Suc (Suc p)) mod 256), word_of_nat (g (Suc (Suc (Suc p))) mod 256),
       word_of_nat (g (Suc (Suc (Suc (Suc p)))) mod 256),
       word_of_nat (g (Suc (Suc (Suc (Suc (Suc p))))) mod 256),
       word_of_nat (g (Suc (Suc (Suc (Suc (Suc (Suc p)))))) mod 256),
       word_of_nat (g (Suc (Suc (Suc (Suc (Suc (Suc (Suc p))))))) mod 256)],
      (g, Suc (Suc (Suc (Suc (Suc (Suc (Suc (Suc p)))))))))"
  unfolding eight_Suc by (simp add: randint_def)

lemma draw_float_loop_random_branch:
  "draw_float_loop (False, False) (scripted [4, 127, 240, 0, 0, 0, 0, 0, 0]) =
     Some (Inr ([0x7F, 0xF0, 0, 0, 0, 0, 0, 0],
                (fst (scripted [4, 127, 240, 0, 0, 0, 0, 0, 0]), 9)))"
  apply (subst draw_float_loop.simps)
  apply (simp add: randint_def scripted_def random_bytes_8)
  done

lemma unpack_infinity: "struct_unpack_d [0x7F, 0xF0, 0, 0, 0, 0, 0, 0] = Inr 0x7FF0000000000000"
  by (simp add: struct_unpack_d_def)

lemma unpack_nan: "struct_unpack_d [0x7F, 0xF8, 0, 0, 0, 0, 0, 0] = Inr 0x7FF8000000000000"
  by (simp add: struct_unpack_d_def)

lemma replay_nan_buffer:
  "replay_draw_bytes ([0x7F, 0xF8, 0, 0, 0, 0, 0, 0], 0) 8 d =
     Some (Inr ([0x7F, 0xF8, 0, 0, 0, 0, 0, 0], ([0x7F, 0xF8, 0, 0, 0, 0, 0, 0], 8)))"
  by (simp add: replay_draw_bytes_def)

text \<open>
  C1 (the code departs from the claim). With both flags off, \<open>draw_float_bytes\<close> checks
  \<open>permitted\<close> only on the catalog branch. When \<open>randint(1, 10)\<close> yields 5 it returns
  eight random bytes unchecked, and \<open>do_draw\<close> decodes whatever bytes it is given: the
  bytes 7F F0 00 00 00 00 00 00 come back as positive infinity, and a replayed buffer
  7F F8 00 00 00 00 00 00 comes back as NaN.
\<close>

theorem WrapperFloat_do_draw_emits_infinity:
  "map_option (map_sum id fst)
     (WrapperFloat_do_draw sampled_draw_bytes \<lparr>allow_infinity = False, allow_nan = False\<rparr>
        (scripted [4, 127, 240, 0, 0, 0, 0, 0, 0]))
     = Some (Inr 0x7FF0000000000000)
   \<and> isinf 0x7FF0000000000000
   \<and> \<not> permitted \<lparr>allow_infinity = False, allow_nan = False\<rparr> 0x7FF0000000000000
   \<and> map_option (map_sum id fst)
     (WrapperFloat_do_draw replay_draw_bytes \<lparr>allow_infinity = False, allow_nan = False\<rparr>
        ([0x7F, 0xF8, 0, 0, 0, 0, 0, 0], 0))
     = Some (Inr 0x7FF8000000000000)
   \<and> isnan 0x7FF8000000000000"
  by (simp add: WrapperFloat_do_draw_def sampled_draw_bytes_def draw_float_bytes_def
      draw_float_loop_random_branch unpack_infinity unpack_nan replay_nan_buffer
      isinf_def isnan_def permitted_def)

text \<open>
  C4, as the claim states it, fails: a range with \<open>start > end\<close> is refused with
  ValueError, which is not InvalidArgument.
\<close>

theorem BoundedIntStrategy_init_not_InvalidArgument:
  "BoundedIntStrategy_init 2 1 = Inl ValueError \<and>
   BoundedIntStrategy_init 2 1 \<noteq> Inl InvalidArgument"
  by (simp add: BoundedIntStrategy_init_def)

text \<open>
  C4, amended: constructing a bounded inclusive integer strategy with \<open>start > end\<close>
  always fails with a ValueError at construction time; for every construction with
  \<open>start \<le> end\<close>, a draw is \<open>integer_range(data, start, end)\<close> and every drawn value lies
  in \<open>[start, end]\<close>.
\<close>

theorem BoundedIntStrategy_range:
  "(e < s \<longrightarrow> BoundedIntStrategy_init s e = Inl ValueError) \<and>
   (s \<le> e \<longrightarrow>
      BoundedIntStrategy_init s e = Inr \<lparr>start = s, end' = e\<rparr> \<and>
      BoundedInt_do_draw draw_bytes \<lparr>start = s, end' = e\<rparr> data =
        integer_range draw_bytes data s e \<and>
      (\<forall>v data'. BoundedInt_do_draw draw_bytes \<lparr>start = s, end' = e\<rparr> data = Some (Inr (v, data'))
         \<longrightarrow> s \<le> v \<and> v \<le> e))"
proof (intro conjI impI allI)
  assume "e < s"
  then show "BoundedIntStrategy_init s e = Inl ValueError"
    by (simp add: BoundedIntStrategy_init_def)
next
  assume "s \<le> e"
  then show "BoundedIntStrategy_init s e = Inr \<lparr>start = s, end' = e\<rparr>"
    by (simp add: BoundedIntStrategy_init_def)
next
  show "BoundedInt_do_draw draw_bytes \<lparr>start = s, end' = e\<rparr> data =
      integer_range draw_bytes data s e"
    by (simp add: BoundedInt_do_draw_def)
next
  fix v data'
  assume le: "s \<le> e"
    and drawn: "BoundedInt_do_draw draw_bytes \<lparr>start = s, end' = e\<rparr> data = Some (Inr (v, data'))"
  from drawn obtain bs where v: "v = s + int_from_bytes bs mod (e - s + 1)"
    by (auto simp: BoundedInt_do_draw_def integer_range_def Let_def
        split: option.splits sum.splits prod.splits)
  from le have pos: "0 < e - s + 1"
    by simp
  from pos_mod_sign [OF pos, of "int_from_bytes bs"] v show "s \<le> v"
    by simp
  from pos_mod_bound [OF pos, of "int_from_bytes bs"] v show "v \<le> e"
    by simp
qed

theorem BoundedIntStrategy_range_witness:
  "BoundedIntStrategy_init 2 1 = Inl ValueError \<and>
   BoundedIntStrategy_init 0 10 = Inr \<lparr>start = 0, end' = 10\<rparr> \<and>
   BoundedInt_do_draw replay_draw_bytes \<lparr>start = 0, end' = 10\<rparr> ([25], 0) = Some (Inr (3, ([25], 1))) \<and>
   (0::int) \<le> 3 \<and> (3::int) \<le> 10"
proof -
  have refused: "BoundedIntStrategy_init 2 1 = Inl ValueError"
    using BoundedIntStrategy_range [where s = 2 and e = 1] by simp
  have le: "(0::int) \<le> 10"
    by simp
  have one: "bytes_needed 10 = 1"
    by (simp add: bytes_needed.simps)
  have draw: "integer_range replay_draw_bytes ([25], 0) 0 10 = Some (Inr (3, ([25], 1)))"
    by (simp add: integer_range_def replay_draw_bytes_def int_from_bytes_def one)
  from BoundedIntStrategy_range [where s = 0 and e = 10 and draw_bytes = replay_draw_bytes
      and data = "([25], 0)"] le draw
  have "BoundedIntStrategy_init 0 10 = Inr \<lparr>start = 0, end' = 10\<rparr> \<and>
      BoundedInt_do_draw replay_draw_bytes \<lparr>start = 0, end' = 10\<rparr> ([25], 0) =
        Some (Inr (3, ([25], 1))) \<and> (0::int) \<le> 3 \<and> (3::int) \<le> 10"
    by simp
  with refused show ?thesis
    by simp
qed

text \<open>
  C10: every construction of WrapperFloatStrategy, FullRangeFloats and
  BoundedFloatStrategy raises TypeError, since each calls \<open>FloatStrategy.__init__\<close> with
  no argument where two are required.
\<close>

theorem float_constructors_raise_TypeError:
  "WrapperFloatStrategy_init sub = Inl TypeError \<and>
   FullRangeFloats_init an ai = Inl TypeError \<and>
   BoundedFloatStrategy_init = Inl TypeError"
  by (simp add: WrapperFloatStrategy_init_def FullRangeFloats_init_def
      BoundedFloatStrategy_init_def FloatStrategy_init_def)

text \<open>
  C9: a draw of the exponential-shaped generator that returns \<open>f\<close> has both bounds
  configured, \<open>lower_bound \<le> f \<le> upper_bound\<close> and
  \<open>sign(lower_bound) \<le> sign(f) \<le> sign(upper_bound)\<close>; a decoded value that violates
  either condition is an unsatisfied assumption and is not returned.
\<close>

theorem Exponential_do_draw_within_bounds:
  "(Exponential_do_draw fa sign draw_bytes self data = Some (Inr (f, data')) \<longrightarrow>
      (\<exists>lo hi. lower_bound self = Some lo \<and> upper_bound self = Some hi \<and>
         float_le lo f \<and> float_le f hi \<and>
         float_le (sign lo) (sign f) \<and> float_le (sign f) (sign hi))) \<and>
   (lower_bound self = Some lo' \<longrightarrow> upper_bound self = Some hi' \<longrightarrow>
    draw_bytes data 8 (exponential_distribution fa self) = Some (Inr (bs, data'')) \<longrightarrow>
    struct_unpack_d bs = Inr g \<longrightarrow>
    \<not> (float_le lo' g \<and> float_le g hi' \<and>
       float_le (sign lo') (sign g) \<and> float_le (sign g) (sign hi')) \<longrightarrow>
    Exponential_do_draw fa sign draw_bytes self data = Some (Inl UnsatisfiedAssumption))"
  by (auto simp: Exponential_do_draw_def getattr_def chained_le_def assume'_def
      split: option.splits sum.splits if_splits)

theorem Exponential_do_draw_within_bounds_witness:
  "Exponential_do_draw \<lparr>fadd = (+), fsub = (-), fmul = (*)\<rparr> copysign_one replay_draw_bytes
     \<lparr>allow_infinity = False, allow_nan = False,
      lower_bound = Some 0, upper_bound = Some 0x3FF0000000000000\<rparr>
     ([0x3F, 0xE0, 0, 0, 0, 0, 0, 0], 0)
     = Some (Inr (0x3FE0000000000000, ([0x3F, 0xE0, 0, 0, 0, 0, 0, 0], 8))) \<and>
   float_le 0 0x3FE0000000000000 \<and> float_le 0x3FE0000000000000 0x3FF0000000000000 \<and>
   float_le (copysign_one 0) (copysign_one 0x3FE0000000000000) \<and>
   float_le (copysign_one 0x3FE0000000000000) (copysign_one 0x3FF0000000000000) \<and>
   struct_unpack_d [0x40, 0, 0, 0, 0, 0, 0, 0] = Inr 0x4000000000000000 \<and>
   \<not> float_le 0x4000000000000000 0x3FF0000000000000 \<and>
   Exponential_do_draw \<lparr>fadd = (+), fsub = (-), fmul = (*)\<rparr> copysign_one replay_draw_bytes
     \<lparr>allow_infinity = False, allow_nan = False,
      lower_bound = Some 0, upper_bound = Some 0x3FF0000000000000\<rparr>
     ([0x40, 0, 0, 0, 0, 0, 0, 0], 0)
     = Some (Inl UnsatisfiedAssumption)"
  using Exponential_do_draw_within_bounds
    [of "\<lparr>fadd = (+), fsub = (-), fmul = (*)\<rparr>" copysign_one replay_draw_bytes
      "\<lparr>allow_infinity = False, allow_nan = False,
        lower_bound = Some 0, upper_bound = Some 0x3FF0000000000000\<rparr>"
      "([0x3F, 0xE0, 0, 0, 0, 0, 0, 0], 0)" "0x3FE0000000000000"
      "([0x3F, 0xE0, 0, 0, 0, 0, 0, 0], 8)"]
    Exponential_do_draw_within_bounds
    [of "\<lparr>fadd = (+), fsub = (-), fmul = (*)\<rparr>" copysign_one replay_draw_bytes
      "\<lparr>allow_infinity = False, allow_nan = False,
        lower_bound = Some 0, upper_bound = Some 0x3FF0000000000000\<rparr>"
      "([0x40, 0, 0, 0, 0, 0, 0, 0], 0)" _ _ 0 "0x3FF0000000000000"
      "[0x40, 0, 0, 0, 0, 0, 0, 0]" "([0x40, 0, 0, 0, 0, 0, 0, 0], 8)" "0x4000000000000000"]
  by (simp add: Exponential_do_draw_def replay_draw_bytes_def struct_unpack_d_def getattr_def
      chained_le_def assume'_def float_le_def float_key_def isnan_def copysign_one_def)

section \<open>Properties of core.py\<close>

subsection \<open>Single steps\<close>

lemma log_fields [simp]:
  "trace (log e st) = trace st @ [e]"
  "warned_random (log e st) = warned_random st"
  "last_exception (log e st) = last_exception st"
  "repr_for_last_exception (log e st) = repr_for_last_exception st"
  "calls (log e st) = calls st"
  "fresh (log e st) = fresh st"
  "db (log e st) = db st"
  by (simp_all add: log_def)

lemma report_fields [simp]:
  "trace (report m st) = trace st @ [Reported m]"
  "warned_random (report m st) = warned_random st"
  "last_exception (report m st) = last_exception st"
  "repr_for_last_exception (report m st) = repr_for_last_exception st"
  "calls (report m st) = calls st"
  "fresh (report m st) = fresh st"
  "db (report m st) = db st"
  by (simp_all add: report_def)

lemma for_buffer_fields [simp]:
  "buffer (fst (for_buffer b st)) = b"
  "ident (fst (for_buffer b st)) = fresh st"
  "status (fst (for_buffer b st)) = VALID"
  "frozen (fst (for_buffer b st)) = False"
  "trace (snd (for_buffer b st)) = trace st @ [Created b]"
  "warned_random (snd (for_buffer b st)) = warned_random st"
  "last_exception (snd (for_buffer b st)) = last_exception st"
  "repr_for_last_exception (snd (for_buffer b st)) = repr_for_last_exception st"
  "calls (snd (for_buffer b st)) = calls st"
  "fresh (snd (for_buffer b st)) = Suc (fresh st)"
  "db (snd (for_buffer b st)) = db st"
  by (simp_all add: for_buffer_def)

lemma reify_overdrawn:
  "strategy_draw env (buffer d) = Overdrawn \<Longrightarrow>
   reify_and_execute env arguments kw test p d st =
     (log (Drew (buffer d)) st, d\<lparr>status := OVERRUN, frozen := True\<rparr>, None,
      Inl (StopTest (ident d)))"
  by (simp add: reify_and_execute_def)

lemma reify_draw_raises:
  "strategy_draw env (buffer d) = DrawRaises e \<Longrightarrow>
   reify_and_execute env arguments kw test p d st = (log (Drew (buffer d)) st, d, None, Inl e)"
  by (simp add: reify_and_execute_def)

lemma reify_test_printed:
  "strategy_draw env (buffer d) = Drawn dk \<Longrightarrow>
   reify_and_execute env arguments kw Test True d st =
     (log (Executed (arg_string env arguments (dk ++ kw)))
        ((report (FalsifyingExample (arg_string env arguments (dk ++ kw)))
            (log (Drew (buffer d)) st))
           \<lparr>calls := Suc (calls st)\<rparr>),
      d, Some (arg_string env arguments (dk ++ kw)), body env (calls st) arguments (dk ++ kw))"
  by (simp add: reify_and_execute_def call_test_def Let_def)

lemma reify_flaky_printed:
  "strategy_draw env (buffer d) = Drawn dk \<Longrightarrow>
   reify_and_execute env arguments kw (TestOrFlaky expected) True d st =
     (report (FalsifyingExample (arg_string env arguments (dk ++ kw))) (log (Drew (buffer d)) st),
      d, Some (arg_string env arguments (dk ++ kw)),
      Inl (test_or_flaky expected (arg_string env arguments (dk ++ kw))))"
  by (simp add: reify_and_execute_def Let_def)

lemma test_or_flaky_is_Flaky:
  "test_or_flaky expected t =
     Flaky (if Some t = expected then UnreliableResult t else UnreliableValues expected t)"
  by (simp add: test_or_flaky_def)

subsection \<open>Phase 4, case by case\<close>

lemma reproduce_unrecorded:
  "last_exception st = None \<Longrightarrow> reproduce env arguments kw b st = (st, Inl AssertionError)"
  by (simp add: reproduce_def)

lemma reproduce_overdrawn:
  "last_exception st = Some original \<Longrightarrow> strategy_draw env b = Overdrawn \<Longrightarrow>
   snd (reproduce env arguments kw b st) = Inl (StopTest (fresh st)) \<and>
   trace (fst (reproduce env arguments kw b st)) = trace st @ [Created b, Drew b] \<and>
   calls (fst (reproduce env arguments kw b st)) = calls st \<and>
   warned_random (fst (reproduce env arguments kw b st)) = warned_random st"
  by (simp add: reproduce_def case_prod_beta reify_overdrawn)

lemma reproduce_draw_raises:
  "last_exception st = Some original \<Longrightarrow> strategy_draw env b = DrawRaises e \<Longrightarrow>
   snd (reproduce env arguments kw b st) =
     (if e = UnsatisfiedAssumption then Inl (Flaky UnreliableAssumption) else Inl e) \<and>
   trace (fst (reproduce env arguments kw b st)) =
     trace st @ [Created b, Drew b] @
       (if e = UnsatisfiedAssumption then [Reported (Traceback e)] else []) \<and>
   calls (fst (reproduce env arguments kw b st)) = calls st \<and>
   warned_random (fst (reproduce env arguments kw b st)) = warned_random st"
  by (simp add: reproduce_def case_prod_beta reify_draw_raises)

lemma reproduce_body_raises:
  "last_exception st = Some original \<Longrightarrow> strategy_draw env b = Drawn dk \<Longrightarrow>
   body env (calls st) arguments (dk ++ kw) = Inl e \<Longrightarrow>
   snd (reproduce env arguments kw b st) =
     (if e = UnsatisfiedAssumption then Inl (Flaky UnreliableAssumption) else Inl e) \<and>
   trace (fst (reproduce env arguments kw b st)) =
     trace st @ [Created b, Drew b,
                 Reported (FalsifyingExample (arg_string env arguments (dk ++ kw))),
                 Executed (arg_string env arguments (dk ++ kw))] @
       (if e = UnsatisfiedAssumption then [Reported (Traceback e)] else []) \<and>
   calls (fst (reproduce env arguments kw b st)) = Suc (calls st) \<and>
   warned_random (fst (reproduce env arguments kw b st)) = warned_random st"
  by (simp add: reproduce_def case_prod_beta reify_test_printed)

lemma reproduce_body_returns:
  "last_exception st = Some original \<Longrightarrow> strategy_draw env b = Drawn dk \<Longrightarrow>
   body env (calls st) arguments (dk ++ kw) = Inr v \<Longrightarrow>
   snd (reproduce env arguments kw b st) =
     Inl (test_or_flaky (repr_for_last_exception st) (arg_string env arguments (dk ++ kw))) \<and>
   trace (fst (reproduce env arguments kw b st)) =
     trace st @ [Created b, Drew b,
                 Reported (FalsifyingExample (arg_string env arguments (dk ++ kw))),
                 Executed (arg_string env arguments (dk ++ kw)),
                 Reported (FailedToReproduce original),
                 Created b, Drew b,
                 Reported (FalsifyingExample (arg_string env arguments (dk ++ kw)))] \<and>
   calls (fst (reproduce env arguments kw b st)) = Suc (calls st) \<and>
   warned_random (fst (reproduce env arguments kw b st)) = warned_random st"
  by (simp add: reproduce_def case_prod_beta reify_test_printed reify_flaky_printed
      test_or_flaky_is_Flaky)

lemmas demo_defs = demo_env_def demo_settings_def idle_engine_def fails_once_def initial_state_def
  local_perform_health_check_def

lemmas step_defs = evaluate_test_data_def evaluate_try_def evaluate_finally_def
  reify_and_execute_def call_test_def handle_exception_def
  is_Exception_def is_FailedHealthCheck_def mark_interesting_def mark_invalid_def
  fail_health_check_def for_buffer_def db_delete_def db_save_def log_def report_def Let_def
  leaves_loop_def

text \<open>
  C2: once a falsifying buffer \<open>b\<close> is known, what the run reports is decided by executing
  \<open>reify_and_execute\<close> again on a byte source built from \<open>b\<close>. If no traceback was
  recorded the run stops on its assertion. Otherwise the record continues with the source
  built from \<open>b\<close> and the draw from it. When the draw yields arguments, the falsifying
  example is printed and the test body is executed once more (one more execution is
  counted); an error it raises is the error of the run (Flaky for a failed assumption);
  if it returns normally, the recorded traceback is reported as not reproduced, a second
  source is built from \<open>b\<close> and Flaky is raised, with one message when the call text
  equals the recorded one and another when it differs. When the draw itself fails, its
  error is the error of the run and the body is not executed.
\<close>

theorem reproduction_before_report:
  fixes env :: "'v env"
  assumes found: "find_falsifying_example env s default_settings examples arguments kw eng
                    = (st, Inr (Some b))"
  defines "w \<equiv> wrapped_test env s default_settings examples arguments kw eng"
  shows "(last_exception st = None \<longrightarrow> w = (st, Inl AssertionError)) \<and>
         (\<forall>original. last_exception st = Some original \<longrightarrow>
            (strategy_draw env b = Overdrawn \<longrightarrow>
               snd w = Inl (StopTest (fresh st)) \<and>
               trace (fst w) = trace st @ [Created b, Drew b] \<and>
               calls (fst w) = calls st) \<and>
            (\<forall>e. strategy_draw env b = DrawRaises e \<longrightarrow>
               snd w = (if e = UnsatisfiedAssumption then Inl (Flaky UnreliableAssumption)
                        else Inl e) \<and>
               trace (fst w) = trace st @ [Created b, Drew b] @
                 (if e = UnsatisfiedAssumption then [Reported (Traceback e)] else []) \<and>
               calls (fst w) = calls st) \<and>
            (\<forall>dk. strategy_draw env b = Drawn dk \<longrightarrow>
               calls (fst w) = Suc (calls st) \<and>
               (\<forall>e. body env (calls st) arguments (dk ++ kw) = Inl e \<longrightarrow>
                  snd w = (if e = UnsatisfiedAssumption then Inl (Flaky UnreliableAssumption)
                           else Inl e) \<and>
                  trace (fst w) =
                    trace st @ [Created b, Drew b,
                                Reported (FalsifyingExample (arg_string env arguments (dk ++ kw))),
                                Executed (arg_string env arguments (dk ++ kw))] @
                      (if e = UnsatisfiedAssumption then [Reported (Traceback e)] else [])) \<and>
               (\<forall>v. body env (calls st) arguments (dk ++ kw) = Inr v \<longrightarrow>
                  snd w =
                    Inl (Flaky (if Some (arg_string env arguments (dk ++ kw))
                                     = repr_for_last_exception st
                                then UnreliableResult (arg_string env arguments (dk ++ kw))
                                else UnreliableValues (repr_for_last_exception st)
                                       (arg_string env arguments (dk ++ kw)))) \<and>
                  trace (fst w) =
                    trace st @ [Created b, Drew b,
                                Reported (FalsifyingExample (arg_string env arguments (dk ++ kw))),
                                Executed (arg_string env arguments (dk ++ kw)),
                                Reported (FailedToReproduce original),
                                Created b, Drew b,
                                Reported (FalsifyingExample
                                  (arg_string env arguments (dk ++ kw)))])))"
proof -
  have w: "w = reproduce env arguments kw b st"
    by (simp add: w_def wrapped_test_def found)
  show ?thesis
  proof (intro conjI allI impI)
    assume "last_exception st = None"
    then show "w = (st, Inl AssertionError)"
      by (simp add: w reproduce_unrecorded)
  next
    fix original
    assume o: "last_exception st = Some original" and d: "strategy_draw env b = Overdrawn"
    from reproduce_overdrawn [OF o d]
    show "snd w = Inl (StopTest (fresh st))"
      "trace (fst w) = trace st @ [Created b, Drew b]"
      "calls (fst w) = calls st"
      by (simp_all add: w)
  next
    fix original e
    assume o: "last_exception st = Some original" and d: "strategy_draw env b = DrawRaises e"
    from reproduce_draw_raises [OF o d]
    show "snd w = (if e = UnsatisfiedAssumption then Inl (Flaky UnreliableAssumption) else Inl e)"
      "trace (fst w) = trace st @ [Created b, Drew b] @
         (if e = UnsatisfiedAssumption then [Reported (Traceback e)] else [])"
      "calls (fst w) = calls st"
      by (simp_all add: w)
  next
    fix original dk
    assume o: "last_exception st = Some original" and d: "strategy_draw env b = Drawn dk"
    show "calls (fst w) = Suc (calls st)"
    proof (cases "body env (calls st) arguments (dk ++ kw)")
      case (Inl e)
      from reproduce_body_raises [OF o d Inl] show ?thesis by (simp add: w)
    next
      case (Inr v)
      from reproduce_body_returns [OF o d Inr] show ?thesis by (simp add: w)
    qed
  next
    fix original dk e
    assume o: "last_exception st = Some original" and d: "strategy_draw env b = Drawn dk"
      and r: "body env (calls st) arguments (dk ++ kw) = Inl e"
    from reproduce_body_raises [OF o d r]
    show "snd w = (if e = UnsatisfiedAssumption then Inl (Flaky UnreliableAssumption) else Inl e)"
      "trace (fst w) =
         trace st @ [Created b, Drew b,
                     Reported (FalsifyingExample (arg_string env arguments (dk ++ kw))),
                     Executed (arg_string env arguments (dk ++ kw))] @
           (if e = UnsatisfiedAssumption then [Reported (Traceback e)] else [])"
      by (simp_all add: w)
  next
    fix original dk v
    assume o: "last_exception st = Some original" and d: "strategy_draw env b = Drawn dk"
      and r: "body env (calls st) arguments (dk ++ kw) = Inr v"
    from reproduce_body_returns [OF o d r]
    show "snd w =
        Inl (Flaky (if Some (arg_string env arguments (dk ++ kw)) = repr_for_last_exception st
                    then UnreliableResult (arg_string env arguments (dk ++ kw))
                    else UnreliableValues (repr_for_last_exception st)
                           (arg_string env arguments (dk ++ kw))))"
      "trace (fst w) =
         trace st @ [Created b, Drew b,
                     Reported (FalsifyingExample (arg_string env arguments (dk ++ kw))),
                     Executed (arg_string env arguments (dk ++ kw)),
                     Reported (FailedToReproduce original),
                     Created b, Drew b,
                     Reported (FalsifyingExample (arg_string env arguments (dk ++ kw)))]"
      by (simp_all add: w test_or_flaky_is_Flaky)
  qed
qed

lemma flaky_found:
  "find_falsifying_example (demo_env fails_once (\<lambda>b. Drawn Map.empty)) (demo_settings (Some [[1]]))
     None [] [] Map.empty idle_engine
   = (\<lparr>warned_random = False, last_exception = Some (Raised 0),
       repr_for_last_exception = Some ''x'', calls = 1, fresh = 1, db = [[1]],
       trace = [Created [1], Snapshot, Drew [1], Executed ''x'', Checked,
                Classified [1] INTERESTING]\<rparr>,
      Inr (Some [1]))"
  by (simp add: find_falsifying_example_def demo_defs step_defs)

theorem reproduction_before_report_witness:
  "last_exception (fst (find_falsifying_example (demo_env fails_once (\<lambda>b. Drawn Map.empty))
      (demo_settings (Some [[1]])) None [] [] Map.empty idle_engine)) = Some (Raised 0) \<and>
   snd (wrapped_test (demo_env fails_once (\<lambda>b. Drawn Map.empty)) (demo_settings (Some [[1]]))
      None [] [] Map.empty idle_engine) = Inl (Flaky (UnreliableResult ''x'')) \<and>
   calls (fst (wrapped_test (demo_env fails_once (\<lambda>b. Drawn Map.empty))
      (demo_settings (Some [[1]])) None [] [] Map.empty idle_engine)) = 2 \<and>
   trace (fst (wrapped_test (demo_env fails_once (\<lambda>b. Drawn Map.empty))
      (demo_settings (Some [[1]])) None [] [] Map.empty idle_engine)) =
     [Created [1], Snapshot, Drew [1], Executed ''x'', Checked, Classified [1] INTERESTING,
      Created [1], Drew [1], Reported (FalsifyingExample ''x''), Executed ''x'',
      Reported (FailedToReproduce (Raised 0)),
      Created [1], Drew [1], Reported (FalsifyingExample ''x'')]"
proof -
  have recorded: "last_exception (fst (find_falsifying_example
      (demo_env fails_once (\<lambda>b. Drawn Map.empty)) (demo_settings (Some [[1]])) None [] []
      Map.empty idle_engine)) = Some (Raised 0)"
    by (simp add: flaky_found)
  from reproduction_before_report [OF flaky_found]
  have "snd (wrapped_test (demo_env fails_once (\<lambda>b. Drawn Map.empty))
      (demo_settings (Some [[1]])) None [] [] Map.empty idle_engine)
      = Inl (Flaky (UnreliableResult ''x'')) \<and>
   calls (fst (wrapped_test (demo_env fails_once (\<lambda>b. Drawn Map.empty))
      (demo_settings (Some [[1]])) None [] [] Map.empty idle_engine)) = 2 \<and>
   trace (fst (wrapped_test (demo_env fails_once (\<lambda>b. Drawn Map.empty))
      (demo_settings (Some [[1]])) None [] [] Map.empty idle_engine)) =
     [Created [1], Snapshot, Drew [1], Executed ''x'', Checked, Classified [1] INTERESTING,
      Created [1], Drew [1], Reported (FalsifyingExample ''x''), Executed ''x'',
      Reported (FailedToReproduce (Raised 0)),
      Created [1], Drew [1], Reported (FalsifyingExample ''x'')]"
    by (simp add: demo_env_def fails_once_def)
  with recorded show ?thesis
    by simp
qed

text \<open>
  C6: when the search is reached and the engine finishes with a last byte source that is
  not interesting, the run raises Timeout if fewer than
  \<open>min(min_satisfying_examples, max_examples)\<close> examples were valid, \<open>timeout > 0\<close> and the
  elapsed time is at least \<open>timeout\<close>; Unsatisfiable if fewer were valid otherwise; and
  returns normally if enough were valid.
\<close>

theorem search_without_failure_outcome:
  assumes ex: "run_examples env arguments kw (rev examples) (initial_state s) = (st1, None)"
    and pos: "0 < max_examples s"
    and val: "validate env = None"
    and rep: "(case database s of
                 None \<Rightarrow> (st1, Inr None)
               | Some _ \<Rightarrow> replay env s arguments kw
                             (local_perform_health_check s default_settings) (db st1) st1)
              = (st2, Inr None)"
    and run: "run_engine (evaluate_test_data env s arguments kw
                 (local_perform_health_check s default_settings)) eng (log EngineRun st2)
              = (st3, Inr r)"
    and nofail: "status (last_data r) \<noteq> INTERESTING"
  shows "wrapped_test env s default_settings examples arguments kw eng =
           (st3,
            if valid_examples r < min (min_satisfying_examples s) (max_examples s)
            then (if timeout s > 0 \<and> run_time env \<ge> timeout s then Inl Timeout
                  else Inl Unsatisfiable)
            else Inr ())"
proof -
  have srch: "search env s arguments kw (local_perform_health_check s default_settings) eng st2 =
      (st3,
       if valid_examples r < min (min_satisfying_examples s) (max_examples s)
       then (if timeout s > 0 \<and> run_time env \<ge> timeout s then Inl Timeout
             else Inl Unsatisfiable)
       else Inr None)"
    using nofail by (simp add: search_def run Let_def)
  have "find_falsifying_example env s default_settings examples arguments kw eng =
      search env s arguments kw (local_perform_health_check s default_settings) eng st2"
    using pos by (simp add: find_falsifying_example_def ex val rep Let_def)
  then show ?thesis
    by (simp add: wrapped_test_def srch)
qed

theorem search_without_failure_outcome_witness:
  "wrapped_test (demo_env (\<lambda>n. Inr PyNone) (\<lambda>b. Drawn Map.empty)) (demo_settings None) None
     [] [] Map.empty idle_engine
   = (log EngineRun (initial_state (demo_settings None)), Inl Unsatisfiable) \<and>
   wrapped_test (demo_env (\<lambda>n. Inr PyNone) (\<lambda>b. Drawn Map.empty)\<lparr>run_time := 61\<rparr>)
     (demo_settings None) None [] [] Map.empty idle_engine
   = (log EngineRun (initial_state (demo_settings None)), Inl Timeout) \<and>
   wrapped_test (demo_env (\<lambda>n. Inr PyNone) (\<lambda>b. Drawn Map.empty))
     (demo_settings None\<lparr>min_satisfying_examples := 0\<rparr>) None [] [] Map.empty idle_engine
   = (log EngineRun (initial_state (demo_settings None)), Inr ())"
proof -
  let ?r = "\<lparr>last_data = \<lparr>ident = 0, buffer = [], status = VALID, frozen = False\<rparr>,
             valid_examples = 0\<rparr>"
  have a: "wrapped_test env s None [] [] Map.empty idle_engine =
           (log EngineRun (initial_state s),
            if valid_examples ?r < min (min_satisfying_examples s) (max_examples s)
            then (if timeout s > 0 \<and> run_time env \<ge> timeout s then Inl Timeout
                  else Inl Unsatisfiable)
            else Inr ())"
    if "0 < max_examples s" "validate env = None" "database s = None" for env :: "int env" and s
    by (rule search_without_failure_outcome [where ?st1.0 = "initial_state s" and ?st2.0 = "initial_state s"])
      (simp_all add: that idle_engine_def)
  show ?thesis
    using a [of "demo_settings None" "demo_env (\<lambda>n. Inr PyNone) (\<lambda>b. Drawn Map.empty)"]
      a [of "demo_settings None" "demo_env (\<lambda>n. Inr PyNone) (\<lambda>b. Drawn Map.empty)\<lparr>run_time := 61\<rparr>"]
      a [of "demo_settings None\<lparr>min_satisfying_examples := 0\<rparr>" "demo_env (\<lambda>n. Inr PyNone) (\<lambda>b. Drawn Map.empty)"]
    by (simp add: demo_settings_def demo_env_def initial_state_def)
qed

text \<open>
  C8 (the code departs from the claim). With \<open>strict\<close> off and health checks on, a test
  that returns 1 makes \<open>evaluate_test_data\<close> raise FailedHealthCheck: the exception leaves
  the call and no warning is recorded. The check of the global random state, in the same
  function, goes through \<open>fail_health_check\<close>, which warns when \<open>strict\<close> is off; the
  check of the returned value raises directly.
\<close>

theorem returned_value_raises_when_not_strict:
  "evaluate_test_data (demo_env (\<lambda>n. Inr (PyInt 1)) (\<lambda>b. Drawn Map.empty)) (demo_settings None)
     [] Map.empty True \<lparr>ident = 0, buffer = [1], status = VALID, frozen = False\<rparr>
     (initial_state (demo_settings None))
   = (\<lparr>warned_random = False, last_exception = None, repr_for_last_exception = None,
       calls = 1, fresh = 0, db = [], trace = [Snapshot, Drew [1], Executed ''x'', Checked]\<rparr>,
      \<lparr>ident = 0, buffer = [1], status = VALID, frozen = False\<rparr>,
      Some (FailedHealthCheck ReturnedValue)) \<and>
   \<not> strict (demo_settings None)"
  by (simp add: demo_defs step_defs)


subsection \<open>The record of calls only grows\<close>

lemma extends_refl: "extends P st st"
  by (simp add: extends_def)

lemma extends_trans: "extends P st st1 \<Longrightarrow> extends P st1 st2 \<Longrightarrow> extends P st st2"
  by (auto simp: extends_def)

lemma extends_same_trace: "trace st' = trace st \<Longrightarrow> extends P st st'"
  by (simp add: extends_def)

lemma extends_log: "P e \<Longrightarrow> extends P st (log e st)"
  by (simp add: extends_def)

lemma extends_report: "P (Reported m) \<Longrightarrow> extends P st (report m st)"
  by (simp add: extends_def)

lemma extends_report_all:
  "(\<And>m. P (Reported m)) \<Longrightarrow> extends P st (report_all ms st)"
proof (induction ms arbitrary: st)
  case Nil
  then show ?case by (simp add: extends_refl)
next
  case (Cons m ms)
  from Cons.prems have "extends P st (report m st)"
    by (simp add: extends_report)
  moreover from Cons have "extends P (report m st) (report_all ms (report m st))"
    by blast
  ultimately show ?case
    by (simp add: extends_trans)
qed

lemma report_all_fields [simp]:
  "warned_random (report_all ms st) = warned_random st"
  "db (report_all ms st) = db st"
  "trace (report_all ms st) = trace st @ map Reported ms"
  by (induction ms arbitrary: st) simp_all

lemma extends_for_buffer: "P (Created b) \<Longrightarrow> extends P st (snd (for_buffer b st))"
  by (simp add: extends_def)

lemma call_test_fields [simp]:
  "trace (fst (call_test env arguments kw st)) = trace st @ [Executed (arg_string env arguments kw)]"
  "warned_random (fst (call_test env arguments kw st)) = warned_random st"
  "db (fst (call_test env arguments kw st)) = db st"
  "calls (fst (call_test env arguments kw st)) = Suc (calls st)"
  "snd (call_test env arguments kw st) = body env (calls st) arguments kw"
  by (simp_all add: call_test_def)

lemma reify_effect:
  assumes "\<And>e. is_test_event e \<Longrightarrow> P e"
  shows "extends P st (fst (reify_and_execute env arguments kw test p d st)) \<and>
         warned_random (fst (reify_and_execute env arguments kw test p d st)) = warned_random st \<and>
         db (fst (reify_and_execute env arguments kw test p d st)) = db st"
proof (cases "strategy_draw env (buffer d)")
  case Overdrawn
  then show ?thesis using assms by (simp add: reify_overdrawn extends_log)
next
  case (DrawRaises e)
  then show ?thesis using assms by (simp add: reify_draw_raises extends_log)
next
  case (Drawn dk)
  have P: "P (Executed t)" "P (Reported m)" "P (Drew x)" for t m x
    using assms by simp_all
  from Drawn show ?thesis
    by (cases test; cases p)
      (simp_all add: reify_and_execute_def Let_def case_prod_beta extends_def P)
qed

lemma handle_exception_effect:
  assumes "\<And>e. is_test_event e \<Longrightarrow> P e"
  shows "extends P st (fst (handle_exception env e rr d st)) \<and>
         warned_random (fst (handle_exception env e rr d st)) = warned_random st \<and>
         db (fst (handle_exception env e rr d st)) = db st"
proof -
  have P: "P (Reported m)" for m
    using assms by simp
  show ?thesis
    by (simp add: handle_exception_def Let_def case_prod_beta extends_def P mark_invalid_def
        mark_interesting_def)
qed

lemma evaluate_try_effect:
  assumes "\<And>e. is_test_event e \<Longrightarrow> P e"
  shows "extends P st (fst (evaluate_try env s arguments kw d st)) \<and>
         warned_random (fst (evaluate_try env s arguments kw d st)) = warned_random st \<and>
         db (fst (evaluate_try env s arguments kw d st)) = db st"
proof -
  obtain st1 d1 rr r where re: "reify_and_execute env arguments kw Test False d st = (st1, d1, rr, r)"
    by (metis prod_cases4)
  have "extends P st (fst (reify_and_execute env arguments kw Test False d st)) \<and>
      warned_random (fst (reify_and_execute env arguments kw Test False d st)) = warned_random st \<and>
      db (fst (reify_and_execute env arguments kw Test False d st)) = db st"
    by (rule reify_effect) (rule assms)
  with re have r1: "extends P st st1" "warned_random st1 = warned_random st" "db st1 = db st"
    by simp_all
  show ?thesis
  proof (cases r)
    case (Inr v)
    with re r1 show ?thesis
      by (simp add: evaluate_try_def)
  next
    case (Inl e)
    have "extends P st1 (fst (handle_exception env e rr d1 st1)) \<and>
        warned_random (fst (handle_exception env e rr d1 st1)) = warned_random st1 \<and>
        db (fst (handle_exception env e rr d1 st1)) = db st1"
      by (rule handle_exception_effect) (rule assms)
    with r1 Inl re show ?thesis
      by (auto simp: evaluate_try_def intro: extends_trans)
  qed
qed

lemma test_event_calm: "is_test_event e \<Longrightarrow> calm e"
  by (cases e) (simp_all add: calm_def)

lemma calm_no_fire: "list_all calm evs \<Longrightarrow> HealthFailure UsedGlobalRandom \<notin> set evs"
  by (induction evs) (auto simp: calm_def)

lemma quiet_skip:
  "HealthFailure UsedGlobalRandom \<notin> set xs \<Longrightarrow> quiet_after_fire (xs @ ys) = quiet_after_fire ys"
  by (induction xs) auto

lemma quiet_no_fire: "HealthFailure UsedGlobalRandom \<notin> set xs \<Longrightarrow> quiet_after_fire xs"
  using quiet_skip [of xs "[]"] by simp

lemma quiet_calm: "quiet_after_fire xs \<Longrightarrow> list_all calm ys \<Longrightarrow> quiet_after_fire (xs @ ys)"
  by (induction xs) (auto simp: quiet_no_fire calm_no_fire split: if_splits)

lemma fire_inv_quiet: "fire_inv st \<Longrightarrow> quiet_after_fire (trace st)"
  by (auto simp: fire_inv_def quiet_no_fire split: if_splits)

lemma fire_inv_calm_step:
  assumes "fire_inv st" "warned_random st' = warned_random st" "extends calm st st'"
  shows "fire_inv st'"
proof -
  from assms(3) obtain evs where evs: "trace st' = trace st @ evs" "list_all calm evs"
    by (auto simp: extends_def)
  show ?thesis
  proof (cases "warned_random st")
    case True
    with assms(1,2) evs show ?thesis
      by (simp add: fire_inv_def quiet_calm)
  next
    case False
    with assms(1,2) evs calm_no_fire [OF evs(2)] show ?thesis
      by (simp add: fire_inv_def)
  qed
qed

lemma evaluate_finally_inv:
  assumes "fire_inv st2"
  shows "fire_inv (fst (evaluate_finally env s phc b (st2, d2, leaving)))"
proof (cases "\<not> warned_random st2 \<and> phc")
  case False
  then have "evaluate_finally env s phc b (st2, d2, leaving) = (st2, d2, leaving)"
    by (auto simp: evaluate_finally_def)
  with assms show ?thesis
    by simp
next
  case True
  with assms have nofire: "HealthFailure UsedGlobalRandom \<notin> set (trace st2 @ [Checked])"
    by (simp add: fire_inv_def)
  show ?thesis
  proof (cases "touched_random env b (calls st2)")
    case False
    with True nofire show ?thesis
      by (simp add: evaluate_finally_def Let_def fire_inv_def)
  next
    case touched: True
    have "quiet_after_fire ((trace st2 @ [Checked]) @ HealthFailure UsedGlobalRandom # tl)"
      if "list_all calm tl" for tl
      using that by (simp only: quiet_skip [OF nofire]) simp
    then have "quiet_after_fire (trace st2 @ [Checked, HealthFailure UsedGlobalRandom])"
      "quiet_after_fire (trace st2 @ [Checked, HealthFailure UsedGlobalRandom, Warned UsedGlobalRandom])"
      by (simp_all add: calm_def)
    with True touched show ?thesis
      by (simp add: evaluate_finally_def Let_def fire_inv_def fail_health_check_def)
  qed
qed

lemma evaluate_test_data_inv:
  assumes "fire_inv st"
  shows "fire_inv (fst (evaluate_test_data env s arguments kw phc d st))"
proof -
  let ?st0 = "if phc \<and> \<not> warned_random st then log Snapshot st else st"
  have inv0: "fire_inv ?st0"
    using assms by (auto simp: fire_inv_def)
  have "extends calm ?st0 (fst (evaluate_try env s arguments kw d ?st0)) \<and>
        warned_random (fst (evaluate_try env s arguments kw d ?st0)) = warned_random ?st0 \<and>
        db (fst (evaluate_try env s arguments kw d ?st0)) = db ?st0"
    by (rule evaluate_try_effect) (rule test_event_calm)
  with inv0 have inv2: "fire_inv (fst (evaluate_try env s arguments kw d ?st0))"
    by (blast intro: fire_inv_calm_step)
  obtain st2 d2 leaving where t: "evaluate_try env s arguments kw d ?st0 = (st2, d2, leaving)"
    by (metis prod_cases3)
  with inv2 have "fire_inv st2"
    by simp
  then have "fire_inv (fst (evaluate_finally env s phc (buffer d) (st2, d2, leaving)))"
    by (rule evaluate_finally_inv)
  with t show ?thesis
    by (simp add: evaluate_test_data_def)
qed

lemma evaluate_finally_effect:
  assumes "\<And>e. is_health_event e \<Longrightarrow> P e"
  shows "extends P st2 (fst (evaluate_finally env s phc b (st2, d2, leaving))) \<and>
         db (fst (evaluate_finally env s phc b (st2, d2, leaving))) = db st2"
proof -
  have P: "P Checked" "P (HealthFailure m)" "P (Warned m)" for m
    using assms by simp_all
  show ?thesis
    by (simp add: evaluate_finally_def Let_def fail_health_check_def extends_def P)
qed

lemma evaluate_test_data_effect:
  assumes h: "\<And>e. is_health_event e \<Longrightarrow> P e" and t: "\<And>e. is_test_event e \<Longrightarrow> P e"
  shows "extends P st (fst (evaluate_test_data env s arguments kw phc d st)) \<and>
         db (fst (evaluate_test_data env s arguments kw phc d st)) = db st"
proof -
  let ?st0 = "if phc \<and> \<not> warned_random st then log Snapshot st else st"
  have "P Snapshot"
    using h by simp
  then have e0: "extends P st ?st0" "db ?st0 = db st"
    by (simp_all add: extends_log extends_refl)
  have e1: "extends P ?st0 (fst (evaluate_try env s arguments kw d ?st0)) \<and>
        warned_random (fst (evaluate_try env s arguments kw d ?st0)) = warned_random ?st0 \<and>
        db (fst (evaluate_try env s arguments kw d ?st0)) = db ?st0"
    by (rule evaluate_try_effect) (rule t)
  obtain st2 d2 leaving where tr: "evaluate_try env s arguments kw d ?st0 = (st2, d2, leaving)"
    by (metis prod_cases3)
  have e2: "extends P st2 (fst (evaluate_finally env s phc (buffer d) (st2, d2, leaving))) \<and>
         db (fst (evaluate_finally env s phc (buffer d) (st2, d2, leaving))) = db st2"
    by (rule evaluate_finally_effect) (rule h)
  from e0 e1 e2 tr show ?thesis
    by (auto simp: evaluate_test_data_def intro: extends_trans)
qed

subsection \<open>Explicit examples\<close>

lemma run_examples_effect:
  assumes t: "\<And>e. is_test_event e \<Longrightarrow> P e"
  shows "extends P st (fst (run_examples env arguments kw exs st)) \<and>
         warned_random (fst (run_examples env arguments kw exs st)) = warned_random st \<and>
         db (fst (run_examples env arguments kw exs st)) = db st"
proof (induction exs arbitrary: st)
  case Nil
  show ?case by (simp add: extends_refl)
next
  case (Cons ex exs)
  let ?ekw = "example_kwargs env kw ex"
  let ?st1 = "fst (call_test env arguments ?ekw st)"
  have P: "P (Executed x)" "P (Reported m)" for x m
    using t by simp_all
  have step: "extends P st ?st1"
    by (simp add: extends_def P)
  show ?case
  proof (cases "body env (calls st) arguments ?ekw")
    case (Inl e)
    then have "fst (run_examples env arguments kw (ex # exs) st) =
        report_all (map Note (build_notes env (calls st)))
          (report (FalsifyingExample (arg_string env arguments ?ekw)) ?st1)"
      by (simp add: Let_def call_test_def)
    then show ?thesis
      by (simp add: extends_def P list_all_iff)
  next
    case (Inr v)
    then have unfold: "run_examples env arguments kw (ex # exs) st =
        run_examples env arguments kw exs ?st1"
      by (simp add: Let_def call_test_def)
    have "extends P st (fst (run_examples env arguments kw exs ?st1))"
      using Cons.IH [of ?st1] step by (blast intro: extends_trans)
    moreover have "warned_random (fst (run_examples env arguments kw exs ?st1)) = warned_random st"
      "db (fst (run_examples env arguments kw exs ?st1)) = db st"
      using Cons.IH [of ?st1] by simp_all
    ultimately show ?thesis
      by (subst (1 2 3) unfold) simp
  qed
qed

lemma run_examples_pass:
  "(\<forall>i < length exs. \<exists>v. body env (calls st + i) arguments (example_kwargs env kw (exs ! i)) = Inr v)
   \<Longrightarrow> snd (run_examples env arguments kw exs st) = None \<and>
       trace (fst (run_examples env arguments kw exs st)) =
         trace st @ map (\<lambda>ex. Executed (example_text env arguments kw ex)) exs \<and>
       calls (fst (run_examples env arguments kw exs st)) = calls st + length exs"
proof (induction exs arbitrary: st)
  case Nil
  show ?case by simp
next
  case (Cons ex exs)
  let ?ekw = "example_kwargs env kw ex"
  let ?st1 = "fst (call_test env arguments ?ekw st)"
  from Cons.prems obtain v where v: "body env (calls st) arguments ?ekw = Inr v"
    by fastforce
  then have unfold: "run_examples env arguments kw (ex # exs) st =
      run_examples env arguments kw exs ?st1"
    by (simp add: Let_def call_test_def)
  have "\<forall>i < length exs. \<exists>v. body env (calls ?st1 + i) arguments (example_kwargs env kw (exs ! i)) = Inr v"
  proof (intro allI impI)
    fix i assume "i < length exs"
    then have "Suc i < length (ex # exs)" by simp
    with Cons.prems have "\<exists>v. body env (calls st + Suc i) arguments
        (example_kwargs env kw ((ex # exs) ! Suc i)) = Inr v"
      by blast
    then show "\<exists>v. body env (calls ?st1 + i) arguments (example_kwargs env kw (exs ! i)) = Inr v"
      by simp
  qed
  from Cons.IH [OF this] show ?case
    by (subst (1 2 3) unfold) (simp add: example_text_def)
qed

lemma run_examples_fail:
  "k < length exs \<Longrightarrow>
   (\<forall>i < k. \<exists>v. body env (calls st + i) arguments (example_kwargs env kw (exs ! i)) = Inr v) \<Longrightarrow>
   body env (calls st + k) arguments (example_kwargs env kw (exs ! k)) = Inl e \<Longrightarrow>
   snd (run_examples env arguments kw exs st) = Some e \<and>
   trace (fst (run_examples env arguments kw exs st)) =
     trace st @ map (\<lambda>ex. Executed (example_text env arguments kw ex)) (take (Suc k) exs) @
       Reported (FalsifyingExample (example_text env arguments kw (exs ! k))) #
       map (\<lambda>n. Reported (Note n)) (build_notes env (calls st + k))"
proof (induction exs arbitrary: st k)
  case Nil
  then show ?case by simp
next
  case (Cons ex exs)
  let ?ekw = "example_kwargs env kw ex"
  let ?st1 = "fst (call_test env arguments ?ekw st)"
  show ?case
  proof (cases k)
    case 0
    with Cons.prems have "body env (calls st) arguments ?ekw = Inl e"
      by simp
    then show ?thesis
      by (simp add: 0 Let_def call_test_def example_text_def comp_def)
  next
    case (Suc j)
    with Cons.prems obtain v where v: "body env (calls st) arguments ?ekw = Inr v"
      by fastforce
    then have unfold: "run_examples env arguments kw (ex # exs) st =
        run_examples env arguments kw exs ?st1"
      by (simp add: Let_def call_test_def)
    have j: "j < length exs"
      using Cons.prems Suc by simp
    have pass: "\<forall>i < j. \<exists>v. body env (calls ?st1 + i) arguments (example_kwargs env kw (exs ! i)) = Inr v"
    proof (intro allI impI)
      fix i assume "i < j"
      then have "Suc i < k" using Suc by simp
      with Cons.prems have "\<exists>v. body env (calls st + Suc i) arguments
          (example_kwargs env kw ((ex # exs) ! Suc i)) = Inr v"
        by blast
      then show "\<exists>v. body env (calls ?st1 + i) arguments (example_kwargs env kw (exs ! i)) = Inr v"
        by simp
    qed
    have fail: "body env (calls ?st1 + j) arguments (example_kwargs env kw (exs ! j)) = Inl e"
      using Cons.prems Suc by simp
    from Cons.IH [OF j pass fail] show ?thesis
      by (subst (1 2) unfold) (simp add: Suc example_text_def)
  qed
qed

subsection \<open>Reproduction\<close>

lemma reproduce_effect:
  assumes t: "\<And>e. is_test_event e \<Longrightarrow> P e" and c: "\<And>e. is_source_event e \<Longrightarrow> P e"
  shows "extends P st (fst (reproduce env arguments kw b st)) \<and>
         warned_random (fst (reproduce env arguments kw b st)) = warned_random st"
proof -
  have P: "P (Executed x)" "P (Reported m)" "P (Created y)" "P (Drew y)" for x m y
    using t c by simp_all
  show ?thesis
  proof (cases "last_exception st")
    case None
    then show ?thesis by (simp add: reproduce_unrecorded extends_refl)
  next
    case (Some original)
    show ?thesis
    proof (cases "strategy_draw env b")
      case Overdrawn
      from reproduce_overdrawn [OF Some Overdrawn] show ?thesis
        by (simp add: extends_def P)
    next
      case (DrawRaises e)
      from reproduce_draw_raises [OF Some DrawRaises] show ?thesis
        by (simp add: extends_def P)
    next
      case (Drawn dk)
      show ?thesis
      proof (cases "body env (calls st) arguments (dk ++ kw)")
        case (Inl e)
        from reproduce_body_raises [OF Some Drawn Inl] show ?thesis
          by (simp add: extends_def P)
      next
        case (Inr v)
        from reproduce_body_returns [OF Some Drawn Inr] show ?thesis
          by (simp add: extends_def P)
      qed
    qed
  qed
qed

subsection \<open>The replay loop\<close>

lemma db_delete_fields [simp]:
  "trace (db_delete b st) = trace st @ [Deleted b]"
  "warned_random (db_delete b st) = warned_random st"
  "db (db_delete b st) = removeAll b (db st)"
  by (simp_all add: db_delete_def)

lemma db_save_fields [simp]:
  "trace (db_save b st) = trace st @ [Saved b]"
  "warned_random (db_save b st) = warned_random st"
  by (simp_all add: db_save_def)

text \<open>One iteration of the loop, with the evaluation of the stored buffer named.\<close>

lemma replay_Cons:
  assumes ev: "evaluate_test_data env s arguments kw phc (fst (for_buffer existing st))
                 (snd (for_buffer existing st)) = (st1, data1, leaving)"
  shows "replay env s arguments kw phc (existing # rest) st =
     (if leaves_loop leaving (fst (for_buffer existing st)) then (st1, Inl (the leaving))
      else if status data1 = INTERESTING
      then ((if status_rank (status data1) < status_rank VALID
             then db_delete existing (log (Classified existing (status data1)) st1)
             else log (Classified existing (status data1)) st1),
            Inr (Some existing))
      else replay env s arguments kw phc rest
             (if status_rank (status data1) < status_rank VALID
              then db_delete existing (log (Classified existing (status data1)) st1)
              else log (Classified existing (status data1)) st1))"
  using ev by (simp add: case_prod_beta Let_def)

lemma replay_inv:
  "fire_inv st \<Longrightarrow> fire_inv (fst (replay env s arguments kw phc bufs st))"
proof (induction bufs arbitrary: st)
  case Nil
  then show ?case by simp
next
  case (Cons existing rest)
  obtain st1 data1 leaving where
    ev: "evaluate_test_data env s arguments kw phc (fst (for_buffer existing st))
           (snd (for_buffer existing st)) = (st1, data1, leaving)"
    by (metis prod_cases3)
  have "fire_inv (snd (for_buffer existing st))"
    using Cons.prems by (rule fire_inv_calm_step) (simp_all add: extends_def calm_def)
  then have "fire_inv (fst (evaluate_test_data env s arguments kw phc (fst (for_buffer existing st))
           (snd (for_buffer existing st))))"
    by (rule evaluate_test_data_inv)
  with ev have inv1: "fire_inv st1"
    by simp
  let ?st2 = "log (Classified existing (status data1)) st1"
  let ?st3 = "if status_rank (status data1) < status_rank VALID
              then db_delete existing ?st2 else ?st2"
  have inv2: "fire_inv ?st2"
    using inv1 by (rule fire_inv_calm_step) (simp_all add: extends_def calm_def)
  have inv3: "fire_inv ?st3"
    using inv2 by (rule fire_inv_calm_step) (simp_all add: extends_def calm_def)
  from Cons.IH [OF inv3] inv1 inv2 inv3 show ?case
    by (subst replay_Cons [OF ev]) auto
qed

lemma replay_effect:
  assumes h: "\<And>e. is_health_event e \<Longrightarrow> P e" and t: "\<And>e. is_test_event e \<Longrightarrow> P e"
    and c: "\<And>e. is_source_event e \<Longrightarrow> P e"
  shows "extends P st (fst (replay env s arguments kw phc bufs st))"
proof (induction bufs arbitrary: st)
  case Nil
  show ?case by (simp add: extends_refl)
next
  case (Cons existing rest)
  obtain st1 data1 leaving where
    ev: "evaluate_test_data env s arguments kw phc (fst (for_buffer existing st))
           (snd (for_buffer existing st)) = (st1, data1, leaving)"
    by (metis prod_cases3)
  have P: "P (Created b)" "P (Classified b x)" "P (Deleted b)" for b x
    using c by simp_all
  have e0: "extends P st (snd (for_buffer existing st))"
    by (simp add: extends_def P)
  have "extends P (snd (for_buffer existing st))
          (fst (evaluate_test_data env s arguments kw phc (fst (for_buffer existing st))
             (snd (for_buffer existing st)))) \<and>
        db (fst (evaluate_test_data env s arguments kw phc (fst (for_buffer existing st))
             (snd (for_buffer existing st)))) = db (snd (for_buffer existing st))"
    by (rule evaluate_test_data_effect) (simp_all add: h t)
  with ev e0 have e1: "extends P st st1"
    by (auto intro: extends_trans)
  let ?st2 = "log (Classified existing (status data1)) st1"
  let ?st3 = "if status_rank (status data1) < status_rank VALID
              then db_delete existing ?st2 else ?st2"
  have "extends P st1 ?st3"
    by (simp add: extends_def P)
  with e1 have e3: "extends P st ?st3"
    by (rule extends_trans)
  from e3 Cons.IH [of ?st3] have "extends P st (fst (replay env s arguments kw phc rest ?st3))"
    by (rule extends_trans)
  with e1 e3 show ?case
    by (subst replay_Cons [OF ev]) auto
qed

subsection \<open>The engine and the search\<close>

lemma run_engine_inv:
  "fire_inv st \<Longrightarrow>
   fire_inv (fst (run_engine (evaluate_test_data env s arguments kw phc) eng st))"
proof (induction eng arbitrary: st)
  case (Finished r)
  then show ?case by simp
next
  case (Crashed e)
  then show ?case by simp
next
  case (Evaluate b k)
  let ?d = "\<lparr>ident = fresh st, buffer = b, status = VALID, frozen = False\<rparr>"
  let ?st0 = "st\<lparr>fresh := Suc (fresh st)\<rparr>"
  obtain st1 data1 leaving where
    ev: "evaluate_test_data env s arguments kw phc ?d ?st0 = (st1, data1, leaving)"
    by (metis prod_cases3)
  have "fire_inv ?st0"
    using Evaluate.prems by (simp add: fire_inv_def)
  then have "fire_inv (fst (evaluate_test_data env s arguments kw phc ?d ?st0))"
    by (rule evaluate_test_data_inv)
  with ev have "fire_inv st1"
    by simp
  then have "fire_inv (fst (run_engine (evaluate_test_data env s arguments kw phc)
      (k (status data1, leaving)) st1))"
    by (rule Evaluate.IH [OF rangeI])
  with ev show ?case
    by simp
qed

lemma run_engine_effect:
  assumes h: "\<And>e. is_health_event e \<Longrightarrow> P e" and t: "\<And>e. is_test_event e \<Longrightarrow> P e"
  shows "extends P st (fst (run_engine (evaluate_test_data env s arguments kw phc) eng st))"
proof (induction eng arbitrary: st)
  case (Finished r)
  show ?case by (simp add: extends_refl)
next
  case (Crashed e)
  show ?case by (simp add: extends_refl)
next
  case (Evaluate b k)
  let ?d = "\<lparr>ident = fresh st, buffer = b, status = VALID, frozen = False\<rparr>"
  let ?st0 = "st\<lparr>fresh := Suc (fresh st)\<rparr>"
  obtain st1 data1 leaving where
    ev: "evaluate_test_data env s arguments kw phc ?d ?st0 = (st1, data1, leaving)"
    by (metis prod_cases3)
  have "extends P ?st0 (fst (evaluate_test_data env s arguments kw phc ?d ?st0)) \<and>
        db (fst (evaluate_test_data env s arguments kw phc ?d ?st0)) = db ?st0"
    by (rule evaluate_test_data_effect) (simp_all add: h t)
  with ev have "extends P ?st0 st1"
    by simp
  then have "extends P st st1"
    by (simp add: extends_def)
  moreover have "extends P st1 (fst (run_engine (evaluate_test_data env s arguments kw phc)
      (k (status data1, leaving)) st1))"
    by (rule Evaluate.IH [OF rangeI])
  ultimately show ?case
    using ev by (auto intro: extends_trans)
qed

lemma search_inv:
  assumes "fire_inv st"
  shows "fire_inv (fst (search env s arguments kw phc eng st))"
proof -
  obtain st1 r where run:
    "run_engine (evaluate_test_data env s arguments kw phc) eng (log EngineRun st) = (st1, r)"
    by (metis prod.exhaust)
  have "fire_inv (log EngineRun st)"
    using assms by (rule fire_inv_calm_step) (simp_all add: extends_def calm_def)
  then have "fire_inv (fst (run_engine (evaluate_test_data env s arguments kw phc) eng
      (log EngineRun st)))"
    by (rule run_engine_inv)
  with run have inv1: "fire_inv st1"
    by simp
  have inv2: "fire_inv (db_save b st1)" for b
    using inv1 by (rule fire_inv_calm_step) (simp_all add: extends_def calm_def)
  from inv1 inv2 show ?thesis
    by (cases r) (simp_all add: search_def run Let_def)
qed

lemma search_effect:
  assumes h: "\<And>e. is_health_event e \<Longrightarrow> P e" and t: "\<And>e. is_test_event e \<Longrightarrow> P e"
    and c: "\<And>e. is_source_event e \<Longrightarrow> P e" and g: "P EngineRun"
  shows "extends P st (fst (search env s arguments kw phc eng st))"
proof -
  obtain st1 r where run:
    "run_engine (evaluate_test_data env s arguments kw phc) eng (log EngineRun st) = (st1, r)"
    by (metis prod.exhaust)
  have "extends P (log EngineRun st)
      (fst (run_engine (evaluate_test_data env s arguments kw phc) eng (log EngineRun st)))"
    by (rule run_engine_effect) (simp_all add: h t)
  with run have "extends P (log EngineRun st) st1"
    by simp
  with g have e1: "extends P st st1"
    by (blast intro: extends_trans extends_log)
  have "P (Saved b)" for b
    using c by simp
  then have "extends P st1 (db_save b st1)" for b
    by (simp add: extends_def)
  with e1 have e2: "extends P st (db_save b st1)" for b
    by (blast intro: extends_trans)
  from e1 e2 show ?thesis
    by (cases r) (simp_all add: search_def run Let_def)
qed

lemma initial_state_inv: "fire_inv (initial_state s)"
  by (simp add: fire_inv_def initial_state_def)

lemma run_examples_inv:
  assumes "fire_inv st"
  shows "fire_inv (fst (run_examples env arguments kw exs st))"
proof -
  have "extends calm st (fst (run_examples env arguments kw exs st)) \<and>
        warned_random (fst (run_examples env arguments kw exs st)) = warned_random st \<and>
        db (fst (run_examples env arguments kw exs st)) = db st"
    by (rule run_examples_effect) (rule test_event_calm)
  with assms show ?thesis
    by (blast intro: fire_inv_calm_step)
qed

lemma find_falsifying_example_inv:
  "fire_inv (fst (find_falsifying_example env s default_settings examples arguments kw eng))"
proof -
  let ?phc = "local_perform_health_check s default_settings"
  obtain st1 r1 where ex:
    "run_examples env arguments kw (rev examples) (initial_state s) = (st1, r1)"
    by (metis prod.exhaust)
  have "fire_inv (fst (run_examples env arguments kw (rev examples) (initial_state s)))"
    by (rule run_examples_inv) (rule initial_state_inv)
  with ex have inv1: "fire_inv st1"
    by simp
  obtain st2 r2 where rep:
    "(case database s of None \<Rightarrow> (st1, Inr None)
      | Some _ \<Rightarrow> replay env s arguments kw ?phc (db st1) st1) = (st2, r2)"
    by (metis prod.exhaust)
  have "fire_inv (fst (case database s of None \<Rightarrow> (st1, Inr None)
      | Some _ \<Rightarrow> replay env s arguments kw ?phc (db st1) st1))"
    using inv1 by (cases "database s") (simp_all add: replay_inv)
  with rep have inv2: "fire_inv st2"
    by simp
  have inv3: "fire_inv (fst (search env s arguments kw ?phc eng st2))"
    using inv2 by (rule search_inv)
  show ?thesis
  proof (cases r1)
    case (Some e)
    with ex inv1 show ?thesis
      by (simp add: find_falsifying_example_def)
  next
    case None
    show ?thesis
    proof (cases "max_examples s \<le> 0 \<or> validate env \<noteq> None")
      case True
      with ex None inv1 show ?thesis
        by (auto simp: find_falsifying_example_def)
    next
      case False
      then have f: "find_falsifying_example env s default_settings examples arguments kw eng =
          (case r2 of
             Inl e \<Rightarrow> (st2, Inl e)
           | Inr (Some b) \<Rightarrow> (st2, Inr (Some b))
           | Inr None \<Rightarrow> search env s arguments kw ?phc eng st2)"
        using ex None rep by (auto simp: find_falsifying_example_def Let_def)
      from inv2 inv3 show ?thesis
        by (simp add: f split: sum.split option.split)
    qed
  qed
qed

lemma wrapped_test_inv:
  "fire_inv (fst (wrapped_test env s default_settings examples arguments kw eng))"
proof -
  obtain st r where f:
    "find_falsifying_example env s default_settings examples arguments kw eng = (st, r)"
    by (metis prod.exhaust)
  from find_falsifying_example_inv [of env s default_settings examples arguments kw eng] f
  have inv: "fire_inv st"
    by simp
  have "extends calm st (fst (reproduce env arguments kw b st)) \<and>
        warned_random (fst (reproduce env arguments kw b st)) = warned_random st" for b
  proof (rule reproduce_effect)
    show "calm e" if "is_test_event e" for e
      using that by (rule test_event_calm)
    show "calm e" if "is_source_event e" for e
      using that by (cases e) (simp_all add: calm_def)
  qed
  with inv have "fire_inv (fst (reproduce env arguments kw b st))" for b
    by (blast intro: fire_inv_calm_step)
  with inv show ?thesis
    by (simp add: wrapped_test_def f split: sum.split option.split)
qed

lemma quiet_fires_once:
  "quiet_after_fire xs \<Longrightarrow> length (filter (\<lambda>e. e = HealthFailure UsedGlobalRandom) xs) \<le> 1"
proof (induction xs)
  case Nil
  then show ?case by simp
next
  case (Cons x xs)
  show ?case
  proof (cases "x = HealthFailure UsedGlobalRandom")
    case True
    with Cons.prems have "list_all calm xs"
      by simp
    then have "filter (\<lambda>e. e = HealthFailure UsedGlobalRandom) xs = []"
      by (induction xs) (auto simp: calm_def)
    with True show ?thesis
      by simp
  next
    case False
    with Cons show ?thesis
      by simp
  qed
qed

lemma evaluate_when_warned:
  assumes w: "warned_random st"
  shows "warned_random (fst (evaluate_test_data env s arguments kw phc d st)) \<and>
         extends is_test_event st (fst (evaluate_test_data env s arguments kw phc d st))"
proof -
  obtain st2 d2 leaving where tr: "evaluate_try env s arguments kw d st = (st2, d2, leaving)"
    by (metis prod_cases3)
  have "extends is_test_event st (fst (evaluate_try env s arguments kw d st)) \<and>
        warned_random (fst (evaluate_try env s arguments kw d st)) = warned_random st \<and>
        db (fst (evaluate_try env s arguments kw d st)) = db st"
    by (rule evaluate_try_effect)
  with tr w have "extends is_test_event st st2" "warned_random st2"
    by simp_all
  with w tr show ?thesis
    by (simp add: evaluate_test_data_def evaluate_finally_def)
qed

text \<open>
  C7: in the record of a whole run the health check of the global random state fires at
  most once, and after it has fired there is no further snapshot or check of the global
  random state. Once \<open>warned_random\<close> is set, an evaluation leaves it set and records
  nothing but the draw, the execution of the test and reports.
\<close>

theorem global_random_check_fires_once:
  "quiet_after_fire (trace (fst (wrapped_test env s default_settings examples arguments kw eng))) \<and>
   length (filter (\<lambda>e. e = HealthFailure UsedGlobalRandom)
     (trace (fst (wrapped_test env s default_settings examples arguments kw eng)))) \<le> 1 \<and>
   (warned_random st \<longrightarrow>
      warned_random (fst (evaluate_test_data env s arguments kw phc d st)) \<and>
      extends is_test_event st (fst (evaluate_test_data env s arguments kw phc d st)))"
proof -
  have q: "quiet_after_fire (trace (fst (wrapped_test env s default_settings examples arguments kw eng)))"
    using wrapped_test_inv by (rule fire_inv_quiet)
  from q quiet_fires_once [OF q] evaluate_when_warned show ?thesis
    by blast
qed

lemma touched_run:
  "wrapped_test (demo_env (\<lambda>n. Inr PyNone) (\<lambda>b. Drawn Map.empty)\<lparr>touched_random := \<lambda>b n. True\<rparr>)
     (demo_settings (Some [[1], [2]])) None [] [] Map.empty idle_engine
   = (\<lparr>warned_random = True, last_exception = None, repr_for_last_exception = None,
       calls = 2, fresh = 2, db = [[1], [2]],
       trace = [Created [1], Snapshot, Drew [1], Executed ''x'', Checked,
                HealthFailure UsedGlobalRandom, Warned UsedGlobalRandom, Classified [1] VALID,
                Created [2], Drew [2], Executed ''x'', Classified [2] VALID,
                EngineRun]\<rparr>,
      Inl Unsatisfiable)"
  by (simp add: wrapped_test_def find_falsifying_example_def search_def demo_defs step_defs)

theorem global_random_check_fires_once_witness:
  "trace (fst (wrapped_test
      (demo_env (\<lambda>n. Inr PyNone) (\<lambda>b. Drawn Map.empty)\<lparr>touched_random := \<lambda>b n. True\<rparr>)
      (demo_settings (Some [[1], [2]])) None [] [] Map.empty idle_engine)) =
     [Created [1], Snapshot, Drew [1], Executed ''x'', Checked,
      HealthFailure UsedGlobalRandom, Warned UsedGlobalRandom, Classified [1] VALID,
      Created [2], Drew [2], Executed ''x'', Classified [2] VALID, EngineRun] \<and>
   quiet_after_fire
     [Created [1], Snapshot, Drew [1], Executed ''x'', Checked,
      HealthFailure UsedGlobalRandom, Warned UsedGlobalRandom, Classified [1] VALID,
      Created [2], Drew [2], Executed ''x'', Classified [2] VALID, EngineRun] \<and>
   length (filter (\<lambda>e. e = HealthFailure UsedGlobalRandom)
     [Created [1], Snapshot, Drew [1], Executed ''x'', Checked,
      HealthFailure UsedGlobalRandom, Warned UsedGlobalRandom, Classified [1] VALID,
      Created [2], Drew [2], Executed ''x'', Classified [2] VALID, EngineRun]) = 1"
proof -
  from global_random_check_fires_once
    [of "demo_env (\<lambda>n. Inr PyNone) (\<lambda>b. Drawn Map.empty)\<lparr>touched_random := \<lambda>b n. True\<rparr>"
      "demo_settings (Some [[1], [2]])" None "[]" "[]" Map.empty idle_engine]
  have "quiet_after_fire
     [Created [1], Snapshot, Drew [1], Executed ''x'', Checked,
      HealthFailure UsedGlobalRandom, Warned UsedGlobalRandom, Classified [1] VALID,
      Created [2], Drew [2], Executed ''x'', Classified [2] VALID, EngineRun]"
    by (simp only: touched_run fst_conv run_state.simps)
  then show ?thesis
    by (simp add: touched_run)
qed

subsection \<open>The state after the explicit examples\<close>

lemma run_examples_pass_state:
  "(\<forall>i < length exs. \<exists>v. body env (calls st + i) arguments (example_kwargs env kw (exs ! i)) = Inr v)
   \<Longrightarrow> run_examples env arguments kw exs st =
         (st\<lparr>calls := calls st + length exs,
             trace := trace st @ map (\<lambda>ex. Executed (example_text env arguments kw ex)) exs\<rparr>,
          None)"
proof (induction exs arbitrary: st)
  case Nil
  show ?case by simp
next
  case (Cons ex exs)
  let ?ekw = "example_kwargs env kw ex"
  let ?st1 = "fst (call_test env arguments ?ekw st)"
  from Cons.prems obtain v where v: "body env (calls st) arguments ?ekw = Inr v"
    by fastforce
  then have unfold: "run_examples env arguments kw (ex # exs) st =
      run_examples env arguments kw exs ?st1"
    by (simp add: Let_def call_test_def)
  have "\<forall>i < length exs. \<exists>v. body env (calls ?st1 + i) arguments (example_kwargs env kw (exs ! i)) = Inr v"
  proof (intro allI impI)
    fix i assume "i < length exs"
    then have "Suc i < length (ex # exs)" by simp
    with Cons.prems have "\<exists>v. body env (calls st + Suc i) arguments
        (example_kwargs env kw ((ex # exs) ! Suc i)) = Inr v"
      by blast
    then show "\<exists>v. body env (calls ?st1 + i) arguments (example_kwargs env kw (exs ! i)) = Inr v"
      by simp
  qed
  from Cons.IH [OF this] show ?case
    by (subst unfold) (simp add: example_text_def call_test_def log_def)
qed

lemma run_examples_fail_state:
  "k < length exs \<Longrightarrow>
   (\<forall>i < k. \<exists>v. body env (calls st + i) arguments (example_kwargs env kw (exs ! i)) = Inr v) \<Longrightarrow>
   body env (calls st + k) arguments (example_kwargs env kw (exs ! k)) = Inl e \<Longrightarrow>
   run_examples env arguments kw exs st =
     (st\<lparr>calls := calls st + Suc k,
         trace := trace st @ map (\<lambda>ex. Executed (example_text env arguments kw ex)) (take (Suc k) exs) @
           Reported (FalsifyingExample (example_text env arguments kw (exs ! k))) #
           map (\<lambda>n. Reported (Note n)) (build_notes env (calls st + k))\<rparr>,
      Some e)"
proof (induction exs arbitrary: st k)
  case Nil
  then show ?case by simp
next
  case (Cons ex exs)
  let ?ekw = "example_kwargs env kw ex"
  let ?st1 = "fst (call_test env arguments ?ekw st)"
  have ra: "report_all ms st' = st'\<lparr>trace := trace st' @ map Reported ms\<rparr>" for ms st'
    by (induction ms arbitrary: st') (simp_all add: report_def log_def)
  show ?case
  proof (cases k)
    case 0
    with Cons.prems have "body env (calls st) arguments ?ekw = Inl e"
      by simp
    then show ?thesis
      by (simp add: 0 Let_def call_test_def example_text_def comp_def ra report_def log_def)
  next
    case (Suc j)
    with Cons.prems obtain v where v: "body env (calls st) arguments ?ekw = Inr v"
      by fastforce
    then have unfold: "run_examples env arguments kw (ex # exs) st =
        run_examples env arguments kw exs ?st1"
      by (simp add: Let_def call_test_def)
    have j: "j < length exs"
      using Cons.prems Suc by simp
    have pass: "\<forall>i < j. \<exists>v. body env (calls ?st1 + i) arguments (example_kwargs env kw (exs ! i)) = Inr v"
    proof (intro allI impI)
      fix i assume "i < j"
      then have "Suc i < k" using Suc by simp
      with Cons.prems have "\<exists>v. body env (calls st + Suc i) arguments
          (example_kwargs env kw ((ex # exs) ! Suc i)) = Inr v"
        by blast
      then show "\<exists>v. body env (calls ?st1 + i) arguments (example_kwargs env kw (exs ! i)) = Inr v"
        by simp
    qed
    have fail: "body env (calls ?st1 + j) arguments (example_kwargs env kw (exs ! j)) = Inl e"
      using Cons.prems Suc by simp
    from Cons.IH [OF j pass fail] show ?thesis
      by (subst unfold) (simp add: Suc example_text_def call_test_def log_def)
  qed
qed

lemma later_phases_extend:
  assumes ex: "run_examples env arguments kw (rev examples) (initial_state s) = (st1, None)"
  shows "\<exists>rest. trace (fst (wrapped_test env s default_settings examples arguments kw eng))
           = trace st1 @ rest"
proof -
  let ?phc = "local_perform_health_check s default_settings"
  let ?T = "\<lambda>e::event. True"
  obtain st2 r2 where rep:
    "(case database s of None \<Rightarrow> (st1, Inr None)
      | Some _ \<Rightarrow> replay env s arguments kw ?phc (db st1) st1) = (st2, r2)"
    by (metis prod.exhaust)
  have "extends ?T st1 (fst (case database s of None \<Rightarrow> (st1, Inr None)
      | Some _ \<Rightarrow> replay env s arguments kw ?phc (db st1) st1))"
    by (cases "database s") (simp_all add: replay_effect extends_refl)
  with rep have e2: "extends ?T st1 st2"
    by simp
  have "extends ?T st2 (fst (search env s arguments kw ?phc eng st2))"
    by (rule search_effect) simp_all
  with e2 have e3: "extends ?T st1 (fst (search env s arguments kw ?phc eng st2))"
    by (rule extends_trans)
  have rp: "extends ?T st1 (fst (reproduce env arguments kw b st'))" if "extends ?T st1 st'" for b st'
  proof -
    have "extends ?T st' (fst (reproduce env arguments kw b st')) \<and>
        warned_random (fst (reproduce env arguments kw b st')) = warned_random st'"
      by (rule reproduce_effect) simp_all
    with that show ?thesis
      by (blast intro: extends_trans)
  qed
  have "extends ?T st1 (fst (wrapped_test env s default_settings examples arguments kw eng))"
  proof (cases "max_examples s \<le> 0 \<or> validate env \<noteq> None")
    case True
    then show ?thesis
      by (auto simp: wrapped_test_def find_falsifying_example_def ex extends_refl)
  next
    case False
    then have f: "find_falsifying_example env s default_settings examples arguments kw eng =
        (case r2 of
           Inl e \<Rightarrow> (st2, Inl e)
         | Inr (Some b) \<Rightarrow> (st2, Inr (Some b))
         | Inr None \<Rightarrow> search env s arguments kw ?phc eng st2)"
      using ex rep by (auto simp: find_falsifying_example_def Let_def)
    obtain st3 r3 where s3: "search env s arguments kw ?phc eng st2 = (st3, r3)"
      by (metis prod.exhaust)
    with e3 have e3': "extends ?T st1 st3"
      by simp
    from e2 e3' rp [OF e2] rp [OF e3'] show ?thesis
      by (simp add: wrapped_test_def f s3 split: sum.split option.split)
  qed
  then show ?thesis
    by (auto simp: extends_def)
qed

text \<open>
  C5: the explicit examples are executed first, once each, most recently declared first.
  When all of them return normally, the state after them is the initial state with one
  execution counted and recorded per example, in reverse declaration order; everything else
  the run records comes after; and with \<open>max_examples \<le> 0\<close> the run ends there. When the
  example at position \<open>k\<close> of the reversed list is the first to raise, the run ends with
  that error: the examples up to it were executed once each, the failing call text and the
  notes were reported, and nothing else happened: no retry, no byte source, no search.
\<close>

theorem explicit_examples_first:
  fixes env :: "'v env" and s :: settings and default_settings :: "settings option"
    and examples :: "'v Example list" and arguments :: "'v list" and kw :: "string \<rightharpoonup> 'v"
    and eng :: engine
  defines "w \<equiv> wrapped_test env s default_settings examples arguments kw eng"
  defines "executed \<equiv> map (\<lambda>ex. Executed (example_text env arguments kw ex))"
  shows "((\<forall>i < length examples.
             \<exists>v. body env i arguments (example_kwargs env kw (rev examples ! i)) = Inr v) \<longrightarrow>
            run_examples env arguments kw (rev examples) (initial_state s) =
              ((initial_state s)\<lparr>calls := length examples, trace := executed (rev examples)\<rparr>,
               None) \<and>
            (\<exists>rest. trace (fst w) = executed (rev examples) @ rest) \<and>
            (max_examples s \<le> 0 \<longrightarrow>
               w = ((initial_state s)\<lparr>calls := length examples,
                                      trace := executed (rev examples)\<rparr>, Inr ()))) \<and>
         (\<forall>k e. k < length examples \<longrightarrow>
            (\<forall>i < k. \<exists>v. body env i arguments (example_kwargs env kw (rev examples ! i)) = Inr v) \<longrightarrow>
            body env k arguments (example_kwargs env kw (rev examples ! k)) = Inl e \<longrightarrow>
            w = ((initial_state s)
                   \<lparr>calls := Suc k,
                    trace := executed (take (Suc k) (rev examples)) @
                      Reported (FalsifyingExample (example_text env arguments kw (rev examples ! k))) #
                      map (\<lambda>n. Reported (Note n)) (build_notes env k)\<rparr>,
                 Inl e))"
proof (intro conjI impI allI)
  assume pass: "\<forall>i < length examples.
      \<exists>v. body env i arguments (example_kwargs env kw (rev examples ! i)) = Inr v"
  have i0: "calls (initial_state s) = 0" "trace (initial_state s) = []"
    by (simp_all add: initial_state_def)
  from pass have "\<forall>i < length (rev examples).
      \<exists>v. body env (calls (initial_state s) + i) arguments
             (example_kwargs env kw (rev examples ! i)) = Inr v"
    by (simp add: i0)
  from run_examples_pass_state [OF this]
  show ex: "run_examples env arguments kw (rev examples) (initial_state s) =
      ((initial_state s)\<lparr>calls := length examples, trace := executed (rev examples)\<rparr>, None)"
    by (simp add: i0 executed_def)
  from later_phases_extend [OF ex]
  show "\<exists>rest. trace (fst w) = executed (rev examples) @ rest"
    by (simp add: w_def)
  assume "max_examples s \<le> 0"
  then show "w = ((initial_state s)\<lparr>calls := length examples,
      trace := executed (rev examples)\<rparr>, Inr ())"
    by (simp add: w_def wrapped_test_def find_falsifying_example_def ex)
next
  fix k e
  assume k: "k < length examples"
    and pass: "\<forall>i < k. \<exists>v. body env i arguments (example_kwargs env kw (rev examples ! i)) = Inr v"
    and fail: "body env k arguments (example_kwargs env kw (rev examples ! k)) = Inl e"
  have i0: "calls (initial_state s) = 0" "trace (initial_state s) = []"
    by (simp_all add: initial_state_def)
  from k have k': "k < length (rev examples)"
    by simp
  from pass have pass': "\<forall>i < k. \<exists>v. body env (calls (initial_state s) + i) arguments
      (example_kwargs env kw (rev examples ! i)) = Inr v"
    by (simp add: i0)
  from fail have fail': "body env (calls (initial_state s) + k) arguments
      (example_kwargs env kw (rev examples ! k)) = Inl e"
    by (simp add: i0)
  from run_examples_fail_state [OF k' pass' fail']
  have "run_examples env arguments kw (rev examples) (initial_state s) =
      ((initial_state s)
         \<lparr>calls := Suc k,
          trace := executed (take (Suc k) (rev examples)) @
            Reported (FalsifyingExample (example_text env arguments kw (rev examples ! k))) #
            map (\<lambda>n. Reported (Note n)) (build_notes env k)\<rparr>,
       Some e)"
    by (simp add: i0 executed_def)
  then show "w = ((initial_state s)
         \<lparr>calls := Suc k,
          trace := executed (take (Suc k) (rev examples)) @
            Reported (FalsifyingExample (example_text env arguments kw (rev examples ! k))) #
            map (\<lambda>n. Reported (Note n)) (build_notes env k)\<rparr>,
       Inl e)"
    by (simp add: w_def wrapped_test_def find_falsifying_example_def)
qed

theorem explicit_examples_first_witness:
  "wrapped_test (demo_env (\<lambda>n. Inr PyNone) (\<lambda>b. Drawn Map.empty)\<lparr>arg_string := show_x\<rparr>)
     (demo_settings None\<lparr>max_examples := 0\<rparr>) None
     [\<lparr>args = [1], kwargs = Map.empty\<rparr>, \<lparr>args = [2], kwargs = Map.empty\<rparr>] [] Map.empty idle_engine
   = (\<lparr>warned_random = False, last_exception = None, repr_for_last_exception = None,
       calls = 2, fresh = 0, db = [], trace = [Executed ''x=2'', Executed ''x=1'']\<rparr>, Inr ()) \<and>
   wrapped_test (demo_env fails_second (\<lambda>b. Drawn Map.empty)\<lparr>arg_string := show_x\<rparr>)
     (demo_settings None) None
     [\<lparr>args = [1], kwargs = Map.empty\<rparr>, \<lparr>args = [2], kwargs = Map.empty\<rparr>] [] Map.empty idle_engine
   = (\<lparr>warned_random = False, last_exception = None, repr_for_last_exception = None,
       calls = 2, fresh = 0, db = [],
       trace = [Executed ''x=2'', Executed ''x=1'', Reported (FalsifyingExample ''x=1'')]\<rparr>,
      Inl (Raised 7))"
proof -
  have pass: "wrapped_test (demo_env (\<lambda>n. Inr PyNone) (\<lambda>b. Drawn Map.empty)\<lparr>arg_string := show_x\<rparr>)
     (demo_settings None\<lparr>max_examples := 0\<rparr>) None
     [\<lparr>args = [1], kwargs = Map.empty\<rparr>, \<lparr>args = [2], kwargs = Map.empty\<rparr>] [] Map.empty idle_engine
   = (\<lparr>warned_random = False, last_exception = None, repr_for_last_exception = None,
       calls = 2, fresh = 0, db = [], trace = [Executed ''x=2'', Executed ''x=1'']\<rparr>, Inr ())"
    using explicit_examples_first
      [where env = "demo_env (\<lambda>n. Inr PyNone) (\<lambda>b. Drawn Map.empty)\<lparr>arg_string := show_x\<rparr>"
        and s = "demo_settings None\<lparr>max_examples := 0\<rparr>" and default_settings = None
        and examples = "[\<lparr>args = [1], kwargs = Map.empty\<rparr>, \<lparr>args = [2], kwargs = Map.empty\<rparr>]"
        and arguments = "[]" and kw = Map.empty and eng = idle_engine, THEN conjunct1]
    by (simp add: demo_env_def demo_settings_def example_text_def example_kwargs_def show_x_def
        initial_state_def)
  have fail: "wrapped_test (demo_env fails_second (\<lambda>b. Drawn Map.empty)\<lparr>arg_string := show_x\<rparr>)
     (demo_settings None) None
     [\<lparr>args = [1], kwargs = Map.empty\<rparr>, \<lparr>args = [2], kwargs = Map.empty\<rparr>] [] Map.empty idle_engine
   = (\<lparr>warned_random = False, last_exception = None, repr_for_last_exception = None,
       calls = 2, fresh = 0, db = [],
       trace = [Executed ''x=2'', Executed ''x=1'', Reported (FalsifyingExample ''x=1'')]\<rparr>,
      Inl (Raised 7))"
    using explicit_examples_first
      [where env = "demo_env fails_second (\<lambda>b. Drawn Map.empty)\<lparr>arg_string := show_x\<rparr>"
        and s = "demo_settings None" and default_settings = None
        and examples = "[\<lparr>args = [1], kwargs = Map.empty\<rparr>, \<lparr>args = [2], kwargs = Map.empty\<rparr>]"
        and arguments = "[]" and kw = Map.empty and eng = idle_engine,
        THEN conjunct2, rule_format, of 1 "Raised 7"]
    by (simp add: demo_env_def demo_settings_def example_text_def example_kwargs_def show_x_def
        initial_state_def fails_second_def)
  from pass fail show ?thesis
    by (rule conjI)
qed

subsection \<open>What the replay loop records\<close>

lemma classified_append [simp]: "classified (xs @ ys) = classified xs @ classified ys"
  by (induction xs rule: classified.induct) simp_all

lemma created_append [simp]: "created (xs @ ys) = created xs @ created ys"
  by (induction xs rule: created.induct) simp_all

lemma no_source_events:
  "list_all (\<lambda>e. \<not> is_source_event e) evs \<Longrightarrow> classified evs = [] \<and> created evs = []"
proof (induction evs)
  case Nil
  show ?case by simp
next
  case (Cons e evs)
  then show ?case by (cases e) simp_all
qed

lemma extends_no_source:
  assumes "extends (\<lambda>e. \<not> is_source_event e) st st'"
  shows "classified (trace st') = classified (trace st) \<and> created (trace st') = created (trace st)"
proof -
  from assms obtain evs where "trace st' = trace st @ evs"
    "list_all (\<lambda>e. \<not> is_source_event e) evs"
    by (auto simp: extends_def)
  with no_source_events [of evs] show ?thesis
    by simp
qed

lemma evaluate_no_source:
  "classified (trace (fst (evaluate_test_data env s arguments kw phc d st))) = classified (trace st) \<and>
   created (trace (fst (evaluate_test_data env s arguments kw phc d st))) = created (trace st) \<and>
   db (fst (evaluate_test_data env s arguments kw phc d st)) = db st"
proof -
  have "extends (\<lambda>e. \<not> is_source_event e) st (fst (evaluate_test_data env s arguments kw phc d st)) \<and>
      db (fst (evaluate_test_data env s arguments kw phc d st)) = db st"
  proof (rule evaluate_test_data_effect)
    show "\<not> is_source_event e" if "is_health_event e" for e
      using that by (cases e) simp_all
    show "\<not> is_source_event e" if "is_test_event e" for e
      using that by (cases e) simp_all
  qed
  with extends_no_source show ?thesis
    by blast
qed

lemma below_valid_simps [simp]:
  "below_valid [] = []"
  "below_valid ((b, c) # cs) =
     (if status_rank c < status_rank VALID then b # below_valid cs else below_valid cs)"
  by (simp_all add: below_valid_def)

lemma replay_spec:
  "replay env s arguments kw phc bufs st = (st', res) \<Longrightarrow>
   (\<exists>cs m. classified (trace st') = classified (trace st) @ cs \<and>
      created (trace st') = created (trace st) @ take m bufs \<and>
      m \<le> length bufs \<and>
      map fst cs = take (length cs) bufs \<and>
      (m = length cs \<or> m = Suc (length cs) \<and> (\<exists>e. res = Inl e)) \<and>
      db st' = filter (\<lambda>b. b \<notin> set (below_valid cs)) (db st) \<and>
      (\<forall>b. res = Inr (Some b) \<longrightarrow>
         cs \<noteq> [] \<and> last cs = (b, INTERESTING) \<and> INTERESTING \<notin> snd ` set (butlast cs)) \<and>
      (res = Inr None \<longrightarrow> length cs = length bufs \<and> INTERESTING \<notin> snd ` set cs) \<and>
      (\<forall>e. res = Inl e \<longrightarrow> INTERESTING \<notin> snd ` set cs))"
proof (induction bufs arbitrary: st)
  case Nil
  then have "st' = st" "res = Inr None"
    by simp_all
  then show ?case
    by (intro exI [of _ "[]"] exI [of _ 0]) simp
next
  case (Cons existing rest)
  obtain st1 data1 leaving where
    ev: "evaluate_test_data env s arguments kw phc (fst (for_buffer existing st))
           (snd (for_buffer existing st)) = (st1, data1, leaving)"
    by (metis prod_cases3)
  from evaluate_no_source [of env s arguments kw phc "fst (for_buffer existing st)"
      "snd (for_buffer existing st)"] ev
  have s1: "classified (trace st1) = classified (trace st)"
    "created (trace st1) = created (trace st) @ [existing]"
    "db st1 = db st"
    by simp_all
  note prem = Cons.prems [unfolded replay_Cons [OF ev]]
  let ?c = "status data1"
  let ?st2 = "log (Classified existing ?c) st1"
  let ?st3 = "if status_rank ?c < status_rank VALID then db_delete existing ?st2 else ?st2"
  have s3: "classified (trace ?st3) = classified (trace st) @ [(existing, ?c)]"
    "created (trace ?st3) = created (trace st) @ [existing]"
    "db ?st3 = (if status_rank ?c < status_rank VALID then removeAll existing (db st) else db st)"
    by (simp_all add: s1)
  show ?case
  proof (cases "leaves_loop leaving (fst (for_buffer existing st))")
    case True
    with prem have "st' = st1" "res = Inl (the leaving)"
      by simp_all
    then show ?thesis
      by (intro exI [of _ "[]"] exI [of _ 1]) (simp add: s1)
  next
    case False
    show ?thesis
    proof (cases "?c = INTERESTING")
      case True
      with False prem have "st' = ?st2" "res = Inr (Some existing)"
        by simp_all
      with True show ?thesis
        by (intro exI [of _ "[(existing, INTERESTING)]"] exI [of _ 1]) (simp add: s1)
    next
      case notint: False
      with False prem have rec: "replay env s arguments kw phc rest ?st3 = (st', res)"
        by simp
      from Cons.IH [OF rec] obtain cs m where
        ih: "classified (trace st') = classified (trace ?st3) @ cs"
          "created (trace st') = created (trace ?st3) @ take m rest"
          "m \<le> length rest"
          "map fst cs = take (length cs) rest"
          "m = length cs \<or> m = Suc (length cs) \<and> (\<exists>e. res = Inl e)"
          "db st' = filter (\<lambda>b. b \<notin> set (below_valid cs)) (db ?st3)"
          "\<forall>b. res = Inr (Some b) \<longrightarrow>
             cs \<noteq> [] \<and> last cs = (b, INTERESTING) \<and> INTERESTING \<notin> snd ` set (butlast cs)"
          "res = Inr None \<longrightarrow> length cs = length rest \<and> INTERESTING \<notin> snd ` set cs"
          "\<forall>e. res = Inl e \<longrightarrow> INTERESTING \<notin> snd ` set cs"
        by blast
      let ?cs = "(existing, ?c) # cs"
      have c1: "classified (trace st') = classified (trace st) @ ?cs"
        unfolding ih(1) s3(1) by simp
      have c2: "created (trace st') = created (trace st) @ take (Suc m) (existing # rest)"
        unfolding ih(2) s3(2) by simp
      have c3: "Suc m \<le> length (existing # rest)"
        using ih(3) by simp
      have c4: "map fst ?cs = take (length ?cs) (existing # rest)"
        using ih(4) by simp
      have c5: "Suc m = length ?cs \<or> Suc m = Suc (length ?cs) \<and> (\<exists>e. res = Inl e)"
        using ih(5) by auto
      have c6: "db st' = filter (\<lambda>b. b \<notin> set (below_valid ?cs)) (db st)"
        unfolding ih(6) s3(3) by (auto simp: removeAll_filter_not_eq intro!: filter_cong)
      have c7: "\<forall>b. res = Inr (Some b) \<longrightarrow>
          ?cs \<noteq> [] \<and> last ?cs = (b, INTERESTING) \<and> INTERESTING \<notin> snd ` set (butlast ?cs)"
        using ih(7) notint by auto
      have c8: "res = Inr None \<longrightarrow> length ?cs = length (existing # rest) \<and>
          INTERESTING \<notin> snd ` set ?cs"
        using ih(8) notint by auto
      have c9: "\<forall>e. res = Inl e \<longrightarrow> INTERESTING \<notin> snd ` set ?cs"
        using ih(9) notint by auto
      from c1 c2 c3 c4 c5 c6 c7 c8 c9 show ?thesis
        by blast
    qed
  qed
qed

text \<open>
  C3: with a database, after the explicit examples the stored buffers are replayed in
  order: the byte sources built are over a prefix of the stored list, and so are the
  classifications read back, one less than the sources only when an exception ended the
  loop. The database afterwards is the stored list without the buffers classified below
  valid, and nothing else is removed. If the loop returns a buffer, it is the last one
  classified, it is interesting, no earlier one was, it is the falsifying example of the run,
  and the engine is never started. If the loop returns none, every stored buffer was
  classified and none was interesting; an exception that leaves the loop ends the run.
\<close>

theorem replay_stops_at_first_interesting:
  fixes env :: "'v env" and eng :: engine
  assumes ex: "run_examples env arguments kw (rev examples) (initial_state s) = (st1, None)"
    and pos: "0 < max_examples s"
    and val: "validate env = None"
    and dbs: "database s = Some stored"
    and rep: "replay env s arguments kw (local_perform_health_check s default_settings) stored st1
                = (st2, res)"
  defines "cs \<equiv> classified (trace st2)"
  defines "w \<equiv> wrapped_test env s default_settings examples arguments kw eng"
  shows "map fst cs = take (length cs) stored \<and>
         (\<exists>m. created (trace st2) = take m stored \<and> m \<le> length stored \<and>
              (m = length cs \<or> m = Suc (length cs) \<and> (\<exists>e. res = Inl e))) \<and>
         db st2 = filter (\<lambda>b. b \<notin> set (below_valid cs)) stored \<and>
         (\<forall>b. res = Inr (Some b) \<longrightarrow>
            cs \<noteq> [] \<and> last cs = (b, INTERESTING) \<and> INTERESTING \<notin> snd ` set (butlast cs) \<and>
            find_falsifying_example env s default_settings examples arguments kw eng
              = (st2, Inr (Some b)) \<and>
            w = reproduce env arguments kw b st2 \<and>
            EngineRun \<notin> set (trace (fst w))) \<and>
         (res = Inr None \<longrightarrow> length cs = length stored \<and> INTERESTING \<notin> snd ` set cs) \<and>
         (\<forall>e. res = Inl e \<longrightarrow> INTERESTING \<notin> snd ` set cs \<and> w = (st2, Inl e))"
proof -
  let ?phc = "local_perform_health_check s default_settings"
  let ?N = "\<lambda>e. e \<noteq> EngineRun"
  have i0: "trace (initial_state s) = []" "db (initial_state s) = stored"
    by (simp_all add: initial_state_def dbs)
  have e1: "extends is_test_event (initial_state s)
        (fst (run_examples env arguments kw (rev examples) (initial_state s))) \<and>
      warned_random (fst (run_examples env arguments kw (rev examples) (initial_state s)))
        = warned_random (initial_state s) \<and>
      db (fst (run_examples env arguments kw (rev examples) (initial_state s)))
        = db (initial_state s)"
    by (rule run_examples_effect)
  with ex i0 have db1: "db st1 = stored" and t1: "extends is_test_event (initial_state s) st1"
    by simp_all
  from t1 i0 have tr1: "list_all is_test_event (trace st1)"
    by (auto simp: extends_def)
  have src1: "classified (trace st1) = []" "created (trace st1) = []"
  proof -
    have "\<not> is_source_event e" if "is_test_event e" for e
      using that by (cases e) simp_all
    with tr1 have "list_all (\<lambda>e. \<not> is_source_event e) (trace st1)"
      by (auto simp: list_all_iff)
    with no_source_events show "classified (trace st1) = []" "created (trace st1) = []"
      by blast+
  qed
  have n1: "EngineRun \<notin> set (trace st1)"
    using tr1 by (auto simp: list_all_iff)
  from replay_spec [OF rep] obtain cs' m where
    sp: "classified (trace st2) = classified (trace st1) @ cs'"
      "created (trace st2) = created (trace st1) @ take m stored"
      "m \<le> length stored"
      "map fst cs' = take (length cs') stored"
      "m = length cs' \<or> m = Suc (length cs') \<and> (\<exists>e. res = Inl e)"
      "db st2 = filter (\<lambda>b. b \<notin> set (below_valid cs')) (db st1)"
      "\<forall>b. res = Inr (Some b) \<longrightarrow>
         cs' \<noteq> [] \<and> last cs' = (b, INTERESTING) \<and> INTERESTING \<notin> snd ` set (butlast cs')"
      "res = Inr None \<longrightarrow> length cs' = length stored \<and> INTERESTING \<notin> snd ` set cs'"
      "\<forall>e. res = Inl e \<longrightarrow> INTERESTING \<notin> snd ` set cs'"
    by blast
  from sp(1) have cs: "cs' = cs"
    by (simp add: cs_def src1)
  have f: "find_falsifying_example env s default_settings examples arguments kw eng =
      (case res of
         Inl e \<Rightarrow> (st2, Inl e)
       | Inr (Some b) \<Rightarrow> (st2, Inr (Some b))
       | Inr None \<Rightarrow> search env s arguments kw ?phc eng st2)"
    using pos by (simp add: find_falsifying_example_def ex val dbs db1 rep Let_def)
  have "extends ?N st1 (fst (replay env s arguments kw ?phc stored st1))"
  proof (rule replay_effect)
    show "e \<noteq> EngineRun" if "is_health_event e" for e
      using that by (cases e) simp_all
    show "e \<noteq> EngineRun" if "is_test_event e" for e
      using that by (cases e) simp_all
    show "e \<noteq> EngineRun" if "is_source_event e" for e
      using that by (cases e) simp_all
  qed
  with rep n1 have n2: "EngineRun \<notin> set (trace st2)"
    by (auto simp: extends_def list_all_iff)
  have n3: "EngineRun \<notin> set (trace (fst (reproduce env arguments kw b st2)))" for b
  proof -
    have "extends ?N st2 (fst (reproduce env arguments kw b st2)) \<and>
        warned_random (fst (reproduce env arguments kw b st2)) = warned_random st2"
    proof (rule reproduce_effect)
      show "e \<noteq> EngineRun" if "is_test_event e" for e
        using that by (cases e) simp_all
      show "e \<noteq> EngineRun" if "is_source_event e" for e
        using that by (cases e) simp_all
    qed
    with n2 show ?thesis
      by (auto simp: extends_def list_all_iff)
  qed
  have a: "map fst cs = take (length cs) stored"
    using sp(4) cs by simp
  have b: "\<exists>m. created (trace st2) = take m stored \<and> m \<le> length stored \<and>
      (m = length cs \<or> m = Suc (length cs) \<and> (\<exists>e. res = Inl e))"
    using sp(2,3,5) cs src1 by auto
  have c: "db st2 = filter (\<lambda>b. b \<notin> set (below_valid cs)) stored"
    using sp(6) cs db1 by simp
  have d: "\<forall>b. res = Inr (Some b) \<longrightarrow>
      cs \<noteq> [] \<and> last cs = (b, INTERESTING) \<and> INTERESTING \<notin> snd ` set (butlast cs) \<and>
      find_falsifying_example env s default_settings examples arguments kw eng
        = (st2, Inr (Some b)) \<and>
      w = reproduce env arguments kw b st2 \<and>
      EngineRun \<notin> set (trace (fst w))"
    using sp(7) cs n3 by (auto simp: f w_def wrapped_test_def)
  have e: "res = Inr None \<longrightarrow> length cs = length stored \<and> INTERESTING \<notin> snd ` set cs"
    using sp(8) cs by simp
  have g: "\<forall>e. res = Inl e \<longrightarrow> INTERESTING \<notin> snd ` set cs \<and> w = (st2, Inl e)"
    using sp(9) cs by (auto simp: f w_def wrapped_test_def)
  from a b c d e g show ?thesis
    by blast
qed

lemma replayed_run:
  "replay (demo_env (\<lambda>n. Inl (Raised 0))
       (\<lambda>b. if b = [1] then DrawRaises UnsatisfiedAssumption else Drawn Map.empty))
     (demo_settings (Some [[1], [2], [3]])) [] Map.empty
     (local_perform_health_check (demo_settings (Some [[1], [2], [3]])) None)
     [[1], [2], [3]] (initial_state (demo_settings (Some [[1], [2], [3]])))
   = (\<lparr>warned_random = False, last_exception = Some (Raised 0),
       repr_for_last_exception = Some ''x'', calls = 1, fresh = 2, db = [[2], [3]],
       trace = [Created [1], Snapshot, Drew [1], Checked, Classified [1] INVALID, Deleted [1],
                Created [2], Snapshot, Drew [2], Executed ''x'', Checked,
                Classified [2] INTERESTING]\<rparr>,
      Inr (Some [2]))"
  by (simp add: demo_defs step_defs)

theorem replay_stops_at_first_interesting_witness:
  "find_falsifying_example (demo_env (\<lambda>n. Inl (Raised 0))
       (\<lambda>b. if b = [1] then DrawRaises UnsatisfiedAssumption else Drawn Map.empty))
     (demo_settings (Some [[1], [2], [3]])) None [] [] Map.empty idle_engine
   = (\<lparr>warned_random = False, last_exception = Some (Raised 0),
       repr_for_last_exception = Some ''x'', calls = 1, fresh = 2, db = [[2], [3]],
       trace = [Created [1], Snapshot, Drew [1], Checked, Classified [1] INVALID, Deleted [1],
                Created [2], Snapshot, Drew [2], Executed ''x'', Checked,
                Classified [2] INTERESTING]\<rparr>,
      Inr (Some [2])) \<and>
   EngineRun \<notin> set (trace (fst (wrapped_test (demo_env (\<lambda>n. Inl (Raised 0))
       (\<lambda>b. if b = [1] then DrawRaises UnsatisfiedAssumption else Drawn Map.empty))
     (demo_settings (Some [[1], [2], [3]])) None [] [] Map.empty idle_engine))) \<and>
   [[2], [3]] = filter (\<lambda>b. b \<notin> set (below_valid [([1], INVALID), ([2], INTERESTING)]))
     [[1], [2], [3]]"
proof -
  let ?env = "demo_env (\<lambda>n. Inl (Raised 0))
       (\<lambda>b. if b = [1] then DrawRaises UnsatisfiedAssumption else Drawn Map.empty)"
  let ?s = "demo_settings (Some [[1], [2], [3]])"
  have ex: "run_examples ?env [] Map.empty (rev []) (initial_state ?s) = (initial_state ?s, None)"
    by simp
  have pos: "0 < max_examples ?s"
    by (simp add: demo_settings_def)
  have val: "validate ?env = None"
    by (simp add: demo_env_def)
  have dbs: "database ?s = Some [[1], [2], [3]]"
    by (simp add: demo_settings_def)
  note t = replay_stops_at_first_interesting [OF ex pos val dbs replayed_run, of idle_engine]
  from t have found: "find_falsifying_example ?env ?s None [] [] Map.empty idle_engine
      = (\<lparr>warned_random = False, last_exception = Some (Raised 0),
       repr_for_last_exception = Some ''x'', calls = 1, fresh = 2, db = [[2], [3]],
       trace = [Created [1], Snapshot, Drew [1], Checked, Classified [1] INVALID, Deleted [1],
                Created [2], Snapshot, Drew [2], Executed ''x'', Checked,
                Classified [2] INTERESTING]\<rparr>,
      Inr (Some [2]))"
    by blast
  from t have quiet: "EngineRun \<notin> set (trace (fst (wrapped_test ?env ?s None [] [] Map.empty
      idle_engine)))"
    by blast
  from t have "db \<lparr>warned_random = False, last_exception = Some (Raised 0),
       repr_for_last_exception = Some ''x'', calls = 1, fresh = 2, db = [[2], [3]],
       trace = [Created [1], Snapshot, Drew [1], Checked, Classified [1] INVALID, Deleted [1],
                Created [2], Snapshot, Drew [2], Executed ''x'', Checked,
                Classified [2] INTERESTING]\<rparr>
      = filter (\<lambda>b. b \<notin> set (below_valid (classified
          (trace \<lparr>warned_random = False, last_exception = Some (Raised 0),
       repr_for_last_exception = Some ''x'', calls = 1, fresh = 2, db = [[2], [3]],
       trace = [Created [1], Snapshot, Drew [1], Checked, Classified [1] INVALID, Deleted [1],
                Created [2], Snapshot, Drew [2], Executed ''x'', Checked,
                Classified [2] INTERESTING]\<rparr>)))) [[1], [2], [3]]"
    by blast
  then have kept: "[[2], [3]] = filter (\<lambda>b. b \<notin> set (below_valid
      [([1], INVALID), ([2], INTERESTING)])) [[1], [2], [3]]"
    by simp
  from found quiet kept show ?thesis
    by blast
qed

end
